theory Spec2Isabelle
  imports Main
begin

section \<open>The xero2 provider of goth: scope catalog, provider adapter, session\<close>

text \<open>
  A shallow embedding of \<^verbatim>\<open>providers/xero2\<close>. Go strings are byte strings
  (\<^typ>\<open>string\<close>), Go's \<^verbatim>\<open>int\<close> status code is an \<^typ>\<open>int\<close>, a
  \<^verbatim>\<open>(value, error)\<close> pair whose value is unused on error is a sum, a
  \<^verbatim>\<open>(goth.User, error)\<close> pair whose value is used on both paths stays a pair
  with an optional error, and a run-time panic is a value of its own.
\<close>

subsection \<open>Scope catalog (scopes.go)\<close>

definition ScopeOfflineAccess :: string where
  "ScopeOfflineAccess = ''offline_access''"

definition ScopeOpenID :: string where
  "ScopeOpenID = ''openid''"

definition ScopeProfile :: string where
  "ScopeProfile = ''profile''"

definition ScopeEmail :: string where
  "ScopeEmail = ''email''"

definition ScopeAccountingTransactions :: string where
  "ScopeAccountingTransactions = ''accounting.transactions''"

definition ScopeAccountingTransactionsRead :: string where
  "ScopeAccountingTransactionsRead = ''accounting.transactions.read''"

definition ScopeAccountingReportsRead :: string where
  "ScopeAccountingReportsRead = ''accounting.reports.read''"

definition ScopeAccountingJournalsRead :: string where
  "ScopeAccountingJournalsRead = ''accounting.journals.read''"

definition ScopeAccountingSettings :: string where
  "ScopeAccountingSettings = ''accounting.settings''"

definition ScopeAccountingSettingsRead :: string where
  "ScopeAccountingSettingsRead = ''accounting.settings.read''"

definition ScopeAccountingContacts :: string where
  "ScopeAccountingContacts = ''accounting.contacts''"

definition ScopeAccountingContactsRead :: string where
  "ScopeAccountingContactsRead = ''accounting.contacts.read''"

definition ScopeAccountingAttachments :: string where
  "ScopeAccountingAttachments = ''accounting.attachments''"

definition ScopeAccountingAttachmentsRead :: string where
  "ScopeAccountingAttachmentsRead = ''accounting.attachments''"

subsection \<open>Constants of the provider\<close>

text \<open>The package constant \<^verbatim>\<open>providerName\<close>; the record field below has the same name.\<close>

definition providerName_const :: string where
  "providerName_const = ''xero2''"

definition authURL :: string where
  "authURL = ''https://login.xero.com/identity/connect/authorize''"

definition tokenURL :: string where
  "tokenURL = ''https://identity.xero.com/connect/token''"

definition tenantsURL :: string where
  "tenantsURL = ''https://api.xero.com/connections''"

definition endpointProfile :: string where
  "endpointProfile = ''https://api.xero.com/api.xro/2.0/Organisation''"

definition defaultScopes :: "string list" where
  "defaultScopes =
     [ScopeOpenID, ScopeProfile, ScopeEmail, ScopeOfflineAccess, ScopeAccountingSettingsRead]"

definition StatusOK :: int where
  "StatusOK = 200"

subsection \<open>Errors, panics and formatting\<close>

text \<open>
  Every error the adapter creates comes from \<^verbatim>\<open>fmt.Errorf\<close> or
  \<^verbatim>\<open>errors.New\<close>: a value that is its message. Errors of the transport and of
  the JSON decoder are values of the same interface and pass through unchanged.
\<close>

datatype error = ErrorString string

fun Error :: "error \<Rightarrow> string" where
  "Error (ErrorString msg) = msg"

text \<open>The two run-time panics the adapter can raise: \<^verbatim>\<open>xs[i]\<close> with
  \<^verbatim>\<open>i >= len(xs)\<close> (index, length) and a field read through a nil pointer.\<close>

datatype panic = IndexOutOfRange nat nat | NilPointerDereference

datatype 'a outcome = Return 'a | Panic panic

text \<open>Decimal digits of a natural number, and \<^verbatim>\<open>%d\<close> of an \<^verbatim>\<open>int\<close>.\<close>

fun show_nat :: "nat \<Rightarrow> string" where
  "show_nat n =
     (if n < 10 then [''0123456789'' ! n]
      else show_nat (n div 10) @ [''0123456789'' ! (n mod 10)])"

declare show_nat.simps [simp del]

definition Itoa :: "int \<Rightarrow> string" where
  "Itoa i = (if i < 0 then CHR ''-'' # show_nat (nat (- i)) else show_nat (nat i))"

text \<open>\<^verbatim>\<open>strings.HasPrefix\<close> and \<^verbatim>\<open>strings.Contains\<close>, to speak about what a
  message names.\<close>

fun HasPrefix :: "string \<Rightarrow> string \<Rightarrow> bool" where
  "HasPrefix s [] = True"
| "HasPrefix [] (p # ps) = False"
| "HasPrefix (c # cs) (p # ps) = (c = p \<and> HasPrefix cs ps)"

fun Contains :: "string \<Rightarrow> string \<Rightarrow> bool" where
  "Contains [] substr = (substr = [])"
| "Contains (c # cs) substr = (HasPrefix (c # cs) substr \<or> Contains cs substr)"

subsection \<open>Data model\<close>

text \<open>
  \<^verbatim>\<open>time.Time\<close> as the session serialises it: a civil date and time of day with
  the digits of its fraction of a second and its zone, UTC or an offset from it (east or
  west, hours, minutes). A value of the type is a date that exists: the fields are within
  the ranges of RFC 3339, section 5.6 and 5.7 (a year of four digits, a month 1 to 12, a
  day of that month in that year, an hour up to 23, a minute up to 59, a second up to 60
  for a leap second). Go's zero value is January 1 of year 1, 00:00:00 UTC.
\<close>

datatype zone = UTC | Offset bool nat nat

record civil =
  year :: nat
  month :: nat
  day :: nat
  hour :: nat
  minute :: nat
  second :: nat
  fraction :: "nat list"
  zone :: zone

definition leap_year :: "nat \<Rightarrow> bool" where
  "leap_year y = (y mod 4 = 0 \<and> (y mod 400 = 0 \<or> y mod 100 \<noteq> 0))"

definition days_in_month :: "nat \<Rightarrow> nat \<Rightarrow> nat" where
  "days_in_month y m =
     (if m = 2 then (if leap_year y then 29 else 28)
      else if m = 4 \<or> m = 6 \<or> m = 9 \<or> m = 11 then 30
      else 31)"

fun valid_zone :: "zone \<Rightarrow> bool" where
  "valid_zone UTC = True"
| "valid_zone (Offset east h m) = (h \<le> 23 \<and> m \<le> 59)"

definition valid_civil :: "civil \<Rightarrow> bool" where
  "valid_civil c =
     (year c \<le> 9999 \<and> 1 \<le> month c \<and> month c \<le> 12
      \<and> 1 \<le> day c \<and> day c \<le> days_in_month (year c) (month c)
      \<and> hour c \<le> 23 \<and> minute c \<le> 59 \<and> second c \<le> 60
      \<and> list_all (\<lambda>d. d < 10) (fraction c) \<and> valid_zone (zone c))"

definition zero_civil :: civil where
  "zero_civil = \<lparr>year = 1, month = 1, day = 1, hour = 0, minute = 0, second = 0,
                  fraction = [], zone = UTC\<rparr>"

typedef Time = "{c :: civil. valid_civil c}"
  morphisms civil_of Time_of
  by (rule exI [of _ zero_civil])
    (simp add: zero_civil_def valid_civil_def days_in_month_def)

definition zeroTime :: Time where
  "zeroTime = Time_of zero_civil"

text \<open>
  Modelled from the spec: the declaration of \<^verbatim>\<open>Session\<close> (session.go) is not
  among the sources. \<^verbatim>\<open>FetchUser\<close> reads \<open>AccessToken\<close>,
  \<open>RefreshToken\<close> and \<open>ExpiresAt\<close>, \<^verbatim>\<open>BeginAuth\<close> writes \<open>AuthURL\<close>,
  and the serialised form expected by \<^verbatim>\<open>Test_ToJSON\<close> and by the spec's example has
  the provider-specific fields \<open>Hostname\<close> and \<open>HMAC\<close>.
\<close>

record Session =
  AuthURL :: string
  AccessToken :: string
  RefreshToken :: string
  Hostname :: string
  HMAC :: string
  ExpiresAt :: Time

definition zeroSession :: Session where
  "zeroSession =
     \<lparr>AuthURL = '''', AccessToken = '''', RefreshToken = '''', Hostname = '''', HMAC = '''',
      ExpiresAt = zeroTime\<rparr>"

record XeroTenant =
  ID :: string
  TenantID :: string
  TenantType :: string

record XeroOrganization =
  Name :: string
  LegalName :: string
  OrganisationType :: string
  CountryCode :: string
  ShortCode :: string

text \<open>
  Modelled from the spec: \<^verbatim>\<open>goth.User\<close> is declared in the root package, which is
  not among the sources. These are the fields of the spec's IdentityRecord, which are also
  all the fields the adapter touches. \<open>RawData\<close> is a \<^verbatim>\<open>map[string]interface{}\<close>:
  \<open>None\<close> is the nil map, and what a decoded map holds is left to the decoder (\<open>'raw\<close>).
\<close>

record 'raw User =
  AccessToken :: string
  Provider :: string
  RefreshToken :: string
  ExpiresAt :: Time
  Name :: string
  NickName :: string
  UserID :: string
  RawData :: "'raw option"

record Endpoint =
  AuthURL :: string
  TokenURL :: string

record Config =
  ClientID :: string
  ClientSecret :: string
  RedirectURL :: string
  Endpoint :: Endpoint
  Scopes :: "string list"

text \<open>The \<^verbatim>\<open>HTTPClient\<close> field is the transport of the environment below;
  \<open>config\<close> is a pointer, nil until \<^verbatim>\<open>New\<close> sets it.\<close>

record Provider =
  ClientKey :: string
  Secret :: string
  CallbackURL :: string
  config :: "Config option"
  providerName :: string
  scopes :: "string list"

subsection \<open>HTTP and JSON: the external collaborators\<close>

text \<open>
  A request is its method, URL and header map (\<^verbatim>\<open>Header.Set\<close> replaces the value
  of a key). A response is its status code and what \<^verbatim>\<open>ioutil.ReadAll\<close> of its
  body gives. \<^verbatim>\<open>http.NewRequest\<close> with the method GET and one of the two constant
  URLs cannot fail, so that branch is not modelled.
\<close>

record Request =
  Method :: string
  URL :: string
  Header :: "string \<rightharpoonup> string"

record Response =
  StatusCode :: int
  Body :: "error + string"

definition NewRequest :: "string \<Rightarrow> string \<Rightarrow> Request" where
  "NewRequest m u = \<lparr>Method = m, URL = u, Header = Map.empty\<rparr>"

definition Header_Set :: "string \<Rightarrow> string \<Rightarrow> Request \<Rightarrow> Request" where
  "Header_Set k v req = req\<lparr>Header := (Header req)(k \<mapsto> v)\<rparr>"

text \<open>
  The environment of one run: the transport behind \<^verbatim>\<open>p.Client().Do\<close>, and
  \<^verbatim>\<open>json.NewDecoder(bytes.NewReader(bits)).Decode\<close> at the three types it is
  used at. A tenant list is a \<^verbatim>\<open>[]*XeroTenant\<close>: an element may be nil (JSON
  \<^verbatim>\<open>null\<close>). The two requests of a run differ in their URL, so a function of the
  request can answer them in any two ways.
\<close>

record 'raw env =
  Do :: "Request \<Rightarrow> error + Response"
  decodeTenants :: "string \<Rightarrow> error + XeroTenant option list"
  decodeRawData :: "string \<Rightarrow> error + 'raw option"
  decodeOrganisations :: "string \<Rightarrow> error + XeroOrganization list"

subsection \<open>Construction (New, newConfig, scopesToStrings, Name, SetName)\<close>

primrec scopesToStrings :: "string list \<Rightarrow> string list" where
  "scopesToStrings [] = []"
| "scopesToStrings (s # ss) = (s @ '' '') # scopesToStrings ss"

definition newConfig :: "Provider \<Rightarrow> string list \<Rightarrow> Config" where
  "newConfig p scps =
     (let c = \<lparr>ClientID = ClientKey p, ClientSecret = Secret p, RedirectURL = CallbackURL p,
               Endpoint = \<lparr>Endpoint.AuthURL = authURL, TokenURL = tokenURL\<rparr>,
               Scopes = []\<rparr>
      in if length scps > 0
         then c\<lparr>Scopes := Scopes c @ scopesToStrings scps\<rparr>
         else (let ds = scopesToStrings defaultScopes
               in c\<lparr>Scopes := Scopes c @ ds\<rparr>))"

definition New :: "string \<Rightarrow> string \<Rightarrow> string \<Rightarrow> string list \<Rightarrow> Provider" where
  "New clientKey secret callbackURL scps =
     (let p = \<lparr>ClientKey = clientKey, Secret = secret, CallbackURL = callbackURL,
               config = None, providerName = providerName_const, scopes = scps\<rparr>
      in p\<lparr>config := Some (newConfig p scps)\<rparr>)"

definition Provider_Name :: "Provider \<Rightarrow> string" where
  "Provider_Name p = providerName p"

definition SetName :: "string \<Rightarrow> Provider \<Rightarrow> Provider" where
  "SetName name p = p\<lparr>providerName := name\<rparr>"

subsection \<open>The two-step identity resolution (FetchUser)\<close>

definition tenantsRequest :: "Session \<Rightarrow> Request" where
  "tenantsRequest sess =
     Header_Set ''Authorization'' (''Bearer '' @ Session.AccessToken sess)
       (NewRequest ''GET'' tenantsURL)"

definition profileRequest :: "Session \<Rightarrow> string \<Rightarrow> Request" where
  "profileRequest sess tenantID =
     Header_Set ''Xero-Tenant-Id'' tenantID
       (Header_Set ''Authorization'' (''Bearer '' @ Session.AccessToken sess)
          (NewRequest ''GET'' endpointProfile))"

text \<open>Each function returns the requests it handed to the transport, in order, beside
  its result.\<close>

definition fetchAuthorizedTenants ::
  "Provider \<Rightarrow> 'raw env \<Rightarrow> Session \<Rightarrow> Request list \<times> (error + XeroTenant option list)" where
  "fetchAuthorizedTenants p e sess =
     (let req = tenantsRequest sess in
      ([req],
       case Do e req of
         Inl err \<Rightarrow> Inl err
       | Inr response \<Rightarrow>
           if StatusCode response \<noteq> StatusOK
           then Inl (ErrorString (providerName p @ '' responded with a ''
                        @ Itoa (StatusCode response)
                        @ '' trying to fetch authorized xero tenants information''))
           else (case Body response of
                   Inl err \<Rightarrow> Inl err
                 | Inr bits \<Rightarrow>
                     (case decodeTenants e bits of
                        Inl err \<Rightarrow> Inl err
                      | Inr tenants \<Rightarrow> Inr tenants))))"

definition fetchTenantInformation ::
  "Provider \<Rightarrow> 'raw env \<Rightarrow> 'raw User \<Rightarrow> Session \<Rightarrow> string
     \<Rightarrow> Request list \<times> ('raw User \<times> error option) outcome" where
  "fetchTenantInformation p e user sess tenantID =
     (let req = profileRequest sess tenantID in
      ([req],
       case Do e req of
         Inl err \<Rightarrow> Return (user, Some err)
       | Inr resp \<Rightarrow>
           if StatusCode resp \<noteq> StatusOK
           then Return (user, Some (ErrorString (providerName p @ '' responded with a ''
                        @ Itoa (StatusCode resp)
                        @ '' trying to fetch xero tenant information'')))
           else (case Body resp of
                   Inl err \<Rightarrow> Return (user, Some err)
                 | Inr bits \<Rightarrow>
                     (case decodeRawData e bits of
                        Inl err \<Rightarrow> Return (user, Some err)
                      | Inr raw \<Rightarrow>
                          (let user1 = user\<lparr>RawData := raw\<rparr> in
                           case decodeOrganisations e bits of
                             Inl err \<Rightarrow> Return (user1, Some err)
                           | Inr Organisations \<Rightarrow>
                               (case Organisations of
                                  [] \<Rightarrow> Panic (IndexOutOfRange 0 0)
                                | org # _ \<Rightarrow>
                                    Return
                                      (user1\<lparr>Name := XeroOrganization.Name org,
                                             NickName := LegalName org,
                                             UserID := ShortCode org\<rparr>,
                                       None)))))))"

definition FetchUser ::
  "Provider \<Rightarrow> 'raw env \<Rightarrow> Session \<Rightarrow> Request list \<times> ('raw User \<times> error option) outcome" where
  "FetchUser p e sess =
     (let user = \<lparr>AccessToken = Session.AccessToken sess,
                  Provider = Provider_Name p,
                  RefreshToken = Session.RefreshToken sess,
                  ExpiresAt = Session.ExpiresAt sess,
                  Name = '''', NickName = '''', UserID = '''', RawData = None\<rparr>
      in if User.AccessToken user = ''''
         then ([], Return (user, Some (ErrorString (providerName p
                       @ '' cannot get organization information without accessToken''))))
         else (case fetchAuthorizedTenants p e sess of
                 (calls, Inl err) \<Rightarrow> (calls, Return (user, Some err))
               | (calls, Inr tenants) \<Rightarrow>
                   (case tenants of
                      [] \<Rightarrow> (calls, Return (user,
                                Some (ErrorString ''No authorized xero tenants found'')))
                    | None # _ \<Rightarrow> (calls, Panic NilPointerDereference)
                    | Some tenant # _ \<Rightarrow>
                        (case fetchTenantInformation p e user sess (TenantID tenant) of
                           (calls2, r) \<Rightarrow> (calls @ calls2, r)))))"

text \<open>The record \<^verbatim>\<open>FetchUser\<close> starts from, named so that statements can refer to it.\<close>

definition newUser :: "Provider \<Rightarrow> Session \<Rightarrow> 'raw User" where
  "newUser p sess =
     \<lparr>AccessToken = Session.AccessToken sess, Provider = Provider_Name p,
      RefreshToken = Session.RefreshToken sess, ExpiresAt = Session.ExpiresAt sess,
      Name = '''', NickName = '''', UserID = '''', RawData = None\<rparr>"

subsection \<open>Session: GetAuthURL, Marshal, Unmarshal\<close>

text \<open>
  Modelled from the spec: session.go, which defines \<^verbatim>\<open>GetAuthURL\<close>,
  \<^verbatim>\<open>Marshal\<close> and \<^verbatim>\<open>UnmarshalSession\<close>, is not among the sources; only
  its tests are. Every definition of this subsection follows sections 4.2, 6, 7 and 8 of
  the spec: the errors \<open>NoAuthURL\<close> and \<open>Deserialize\<close>; a flat JSON object with the
  fixed field order AuthURL, AccessToken, provider-specific fields, ExpiresAt; every field
  present, the empty string for an unset one; timestamps in RFC 3339; and a reader that
  takes the well-formed object at the start of the text and ignores what follows its
  closing brace. The serialised fields are those of the spec's example, which is the string
  \<^verbatim>\<open>Test_ToJSON\<close> expects; \<open>RefreshToken\<close> is not among them, so a Session
  that is read back has it unset. What the spec calls JSON is the grammar of RFC 8259, and
  what it calls RFC 3339 is the \<^verbatim>\<open>date-time\<close> of that document.
\<close>

datatype session_error = ErrorNoAuthURL | ErrorDeserialize

text \<open>Modelled from the spec: \<^verbatim>\<open>GetAuthURL\<close> fails with \<open>ErrorNoAuthURL\<close>
  when \<open>AuthURL\<close> is unset and returns it verbatim otherwise.\<close>

definition GetAuthURL :: "Session \<Rightarrow> session_error + string" where
  "GetAuthURL s = (if Session.AuthURL s = '''' then Inl ErrorNoAuthURL else Inr (Session.AuthURL s))"

subsubsection \<open>Characters\<close>

text \<open>Modelled from the spec: the characters JSON and RFC 3339 give a role to. A control
  character is a byte below 0x20; white space is space, tab, line feed and carriage
  return.\<close>

definition quote_char :: char where
  "quote_char = CHR 0x22"

definition backslash :: char where
  "backslash = CHR 0x5C"

definition is_control :: "char \<Rightarrow> bool" where
  "is_control c = ((of_char c :: nat) < 32)"

definition is_ws :: "char \<Rightarrow> bool" where
  "is_ws c = (c = CHR '' '' \<or> c = CHR 0x09 \<or> c = CHR 0x0A \<or> c = CHR 0x0D)"

definition is_digit :: "char \<Rightarrow> bool" where
  "is_digit c = (c \<in> set ''0123456789'')"

definition digit_val :: "char \<Rightarrow> nat" where
  "digit_val c = of_char c - 48"

definition dig :: "nat \<Rightarrow> char" where
  "dig n = ''0123456789'' ! n"

definition hex_digit :: "nat \<Rightarrow> char" where
  "hex_digit n = ''0123456789abcdef'' ! n"

definition hex_val :: "char \<Rightarrow> nat option" where
  "hex_val c =
     (if is_digit c then Some (digit_val c)
      else if c \<in> set ''abcdef'' then Some (of_char c - 87)
      else if c \<in> set ''ABCDEF'' then Some (of_char c - 55)
      else None)"

subsubsection \<open>The writer\<close>

text \<open>Modelled from the spec: the writer of a JSON string. A double quote and a
  backslash are written behind a backslash, a control character as the escape of its
  code (a backslash, the letter u and four hexadecimal digits, the first two of them
  zero); every other byte stands for itself.\<close>

fun escape :: "string \<Rightarrow> string" where
  "escape [] = []"
| "escape (c # cs) =
     (if c = quote_char \<or> c = backslash then backslash # c # escape cs
      else if is_control c
        then backslash # CHR ''u'' # CHR ''0'' # CHR ''0''
               # hex_digit (of_char c div 16) # hex_digit (of_char c mod 16) # escape cs
      else c # escape cs)"

definition quoted :: "string \<Rightarrow> string" where
  "quoted s = quote_char # escape s @ [quote_char]"

definition emit_member :: "string \<Rightarrow> string \<Rightarrow> string" where
  "emit_member k v = quoted k @ '':'' @ quoted v"

text \<open>Modelled from the spec: the writer of an RFC 3339 timestamp. The year has four
  digits, every other number two; the fraction of a second is written behind a point when
  it has digits; the zone is \<^verbatim>\<open>Z\<close> or a signed offset \<^verbatim>\<open>hh:mm\<close>.\<close>

definition d2 :: "nat \<Rightarrow> string" where
  "d2 n = [dig (n div 10 mod 10), dig (n mod 10)]"

definition d4 :: "nat \<Rightarrow> string" where
  "d4 n = d2 (n div 100 mod 100) @ d2 (n mod 100)"

fun format_zone :: "zone \<Rightarrow> string" where
  "format_zone UTC = ''Z''"
| "format_zone (Offset east h m) = (if east then CHR ''+'' else CHR ''-'') # d2 h @ '':'' @ d2 m"

definition format_fraction :: "nat list \<Rightarrow> string" where
  "format_fraction ds = (if ds = [] then [] else CHR ''.'' # map dig ds)"

definition format_civil :: "civil \<Rightarrow> string" where
  "format_civil c =
     d4 (year c) @ ''-'' @ d2 (month c) @ ''-'' @ d2 (day c) @ ''T''
       @ d2 (hour c) @ '':'' @ d2 (minute c) @ '':'' @ d2 (second c)
       @ format_fraction (fraction c) @ format_zone (zone c)"

definition format_time :: "Time \<Rightarrow> string" where
  "format_time t = format_civil (civil_of t)"

text \<open>Modelled from the spec: \<^verbatim>\<open>Marshal\<close>, the deterministic serialisation of the
  fields in their fixed order, empty values included.\<close>

definition Marshal :: "Session \<Rightarrow> string" where
  "Marshal s =
     ''{'' @ emit_member ''AuthURL'' (Session.AuthURL s)
       @ '','' @ emit_member ''AccessToken'' (Session.AccessToken s)
       @ '','' @ emit_member ''Hostname'' (Hostname s)
       @ '','' @ emit_member ''HMAC'' (HMAC s)
       @ '','' @ emit_member ''ExpiresAt'' (format_time (Session.ExpiresAt s))
       @ ''}''"

subsubsection \<open>The grammar of a serialised Session\<close>

text \<open>
  Modelled from the spec: the text between the quotes of a JSON string and the bytes it
  stands for (RFC 8259, section 7). A byte other than the quote, the backslash and the
  control characters stands for itself; a backslash introduces one of the eight
  two-character escapes, or the letter u and four hexadecimal digits, which stand for the
  UTF-8 bytes of their code point; a high surrogate followed by the escape of a low
  one stands for the code point of the pair; a surrogate on its own stands for U+FFFD, the
  replacement character. Bytes from 0x80 are taken as they are.
\<close>

fun hex4 :: "string \<Rightarrow> nat option" where
  "hex4 [a, b, c, d] =
     (case (hex_val a, hex_val b, hex_val c, hex_val d) of
        (Some x, Some y, Some z, Some w) \<Rightarrow> Some (4096 * x + 256 * y + 16 * z + w)
      | _ \<Rightarrow> None)"
| "hex4 s = None"

definition is_high :: "nat \<Rightarrow> bool" where
  "is_high n = (55296 \<le> n \<and> n < 56320)"

definition is_low :: "nat \<Rightarrow> bool" where
  "is_low n = (56320 \<le> n \<and> n < 57344)"

definition combine :: "nat \<Rightarrow> nat \<Rightarrow> nat" where
  "combine hi lo = 65536 + (hi - 55296) * 1024 + (lo - 56320)"

definition utf8 :: "nat \<Rightarrow> string" where
  "utf8 n =
     (if n < 128 then [char_of n]
      else if n < 2048 then [char_of (192 + n div 64), char_of (128 + n mod 64)]
      else if n < 65536
        then [char_of (224 + n div 4096), char_of (128 + n div 64 mod 64),
              char_of (128 + n mod 64)]
      else [char_of (240 + n div 262144), char_of (128 + n div 4096 mod 64),
            char_of (128 + n div 64 mod 64), char_of (128 + n mod 64)])"

definition replacement :: string where
  "replacement = utf8 65533"

definition simple_escape :: "char \<Rightarrow> char option" where
  "simple_escape e =
     (if e = quote_char then Some quote_char
      else if e = backslash then Some backslash
      else if e = CHR ''/'' then Some (CHR ''/'')
      else if e = CHR ''b'' then Some (CHR 0x08)
      else if e = CHR ''f'' then Some (CHR 0x0C)
      else if e = CHR ''n'' then Some (CHR 0x0A)
      else if e = CHR ''r'' then Some (CHR 0x0D)
      else if e = CHR ''t'' then Some (CHR 0x09)
      else None)"

definition low_escape_ahead :: "string \<Rightarrow> bool" where
  "low_escape_ahead t =
     (\<exists>l lo r. t = backslash # CHR ''u'' # l @ r \<and> hex4 l = Some lo \<and> is_low lo)"

inductive json_chars :: "string \<Rightarrow> string \<Rightarrow> bool" where
  chars_end: "json_chars [] []"
| chars_plain:
    "c \<noteq> quote_char \<Longrightarrow> c \<noteq> backslash \<Longrightarrow> \<not> is_control c \<Longrightarrow> json_chars t v
       \<Longrightarrow> json_chars (c # t) (c # v)"
| chars_escape:
    "simple_escape e = Some b \<Longrightarrow> json_chars t v
       \<Longrightarrow> json_chars (backslash # e # t) (b # v)"
| chars_unicode:
    "hex4 h = Some n \<Longrightarrow> \<not> is_high n \<Longrightarrow> \<not> is_low n \<Longrightarrow> json_chars t v
       \<Longrightarrow> json_chars (backslash # CHR ''u'' # h @ t) (utf8 n @ v)"
| chars_pair:
    "hex4 h = Some hi \<Longrightarrow> is_high hi \<Longrightarrow> hex4 l = Some lo \<Longrightarrow> is_low lo \<Longrightarrow> json_chars t v
       \<Longrightarrow> json_chars (backslash # CHR ''u'' # h @ backslash # CHR ''u'' # l @ t)
             (utf8 (combine hi lo) @ v)"
| chars_lone_low:
    "hex4 h = Some n \<Longrightarrow> is_low n \<Longrightarrow> json_chars t v
       \<Longrightarrow> json_chars (backslash # CHR ''u'' # h @ t) (replacement @ v)"
| chars_lone_high:
    "hex4 h = Some n \<Longrightarrow> is_high n \<Longrightarrow> \<not> low_escape_ahead t \<Longrightarrow> json_chars t v
       \<Longrightarrow> json_chars (backslash # CHR ''u'' # h @ t) (replacement @ v)"

text \<open>
  Modelled from the spec: the values of a flat object. A member of a serialised Session
  holds a scalar: a string, a number (RFC 8259, section 6: an optional minus, an integer
  part without a leading zero, an optional fraction, an optional exponent), or one of the
  three literals. An array or an object as the value of a member is no part of the format.
\<close>

definition ws_text :: "string \<Rightarrow> bool" where
  "ws_text w = list_all is_ws w"

datatype scalar = JString string | JNumber string | JTrue | JFalse | JNull

definition int_text :: "string \<Rightarrow> bool" where
  "int_text i =
     (i = ''0'' \<or> (\<exists>c ds. i = c # ds \<and> is_digit c \<and> c \<noteq> CHR ''0'' \<and> list_all is_digit ds))"

definition frac_text :: "string \<Rightarrow> bool" where
  "frac_text f = (f = [] \<or> (\<exists>ds. f = CHR ''.'' # ds \<and> ds \<noteq> [] \<and> list_all is_digit ds))"

definition exp_text :: "string \<Rightarrow> bool" where
  "exp_text e =
     (e = [] \<or>
      (\<exists>c sg ds. e = c # sg @ ds \<and> (c = CHR ''e'' \<or> c = CHR ''E'')
         \<and> (sg = [] \<or> sg = ''+'' \<or> sg = ''-'') \<and> ds \<noteq> [] \<and> list_all is_digit ds))"

definition number_text :: "string \<Rightarrow> bool" where
  "number_text n =
     (\<exists>m i f e. n = m @ i @ f @ e \<and> (m = [] \<or> m = ''-'')
        \<and> int_text i \<and> frac_text f \<and> exp_text e)"

inductive scalar_text :: "string \<Rightarrow> scalar \<Rightarrow> bool" where
  text_string: "json_chars body v \<Longrightarrow> scalar_text (quote_char # body @ [quote_char]) (JString v)"
| text_number: "number_text n \<Longrightarrow> scalar_text n (JNumber n)"
| text_true: "scalar_text ''true'' JTrue"
| text_false: "scalar_text ''false'' JFalse"
| text_null: "scalar_text ''null'' JNull"

text \<open>
  Modelled from the spec: the object (RFC 8259, section 4). A member is a string, a colon
  and a value, with white space around each; the members are separated by commas; the
  object is the members between braces, or the braces alone. The text of an object ends
  with its closing brace.
\<close>

inductive member_text :: "string \<Rightarrow> string \<times> scalar \<Rightarrow> bool" where
  text_member:
    "ws_text w1 \<Longrightarrow> json_chars kb k \<Longrightarrow> ws_text w2 \<Longrightarrow> ws_text w3 \<Longrightarrow> scalar_text vt v
       \<Longrightarrow> member_text (w1 @ quote_char # kb @ quote_char # w2 @ CHR '':'' # w3 @ vt) (k, v)"

inductive members_text :: "string \<Rightarrow> (string \<times> scalar) list \<Rightarrow> bool" where
  members_last: "member_text t m \<Longrightarrow> members_text t [m]"
| members_more:
    "member_text t m \<Longrightarrow> ws_text w \<Longrightarrow> members_text t' ms
       \<Longrightarrow> members_text (t @ w @ CHR '','' # t') (m # ms)"

inductive object_text :: "string \<Rightarrow> (string \<times> scalar) list \<Rightarrow> bool" where
  object_empty:
    "ws_text w0 \<Longrightarrow> ws_text w1 \<Longrightarrow> object_text (w0 @ CHR ''{'' # w1 @ ''}'') []"
| object_members:
    "ws_text w0 \<Longrightarrow> members_text t ms \<Longrightarrow> ws_text w1
       \<Longrightarrow> object_text (w0 @ CHR ''{'' # t @ w1 @ ''}'') ms"

text \<open>The characters that may follow a value inside an object.\<close>

definition stop_char :: "char \<Rightarrow> bool" where
  "stop_char c = (is_ws c \<or> c = CHR '','' \<or> c = CHR ''}'')"

subsubsection \<open>The reader of the object\<close>

text \<open>
  Modelled from the spec: the reader of a JSON string, from behind its opening quote to
  its closing quote. It returns the bytes the string stands for and the text that
  follows, and nothing when the text ends inside the string, holds a control character, or
  has a backslash that begins no escape.
\<close>

fun read_hex4 :: "string \<Rightarrow> (nat \<times> string) option" where
  "read_hex4 (a # b # c # d # r) =
     (case hex4 [a, b, c, d] of None \<Rightarrow> None | Some n \<Rightarrow> Some (n, r))"
| "read_hex4 s = None"

fun read_unicode :: "string \<Rightarrow> (nat \<times> string) option" where
  "read_unicode (b # u # r) =
     (if b = backslash \<and> u = CHR ''u'' then read_hex4 r else None)"
| "read_unicode s = None"

definition read_code_point :: "nat \<Rightarrow> string \<Rightarrow> string \<times> string" where
  "read_code_point n r =
     (if is_high n
      then (case read_unicode r of
              None \<Rightarrow> (replacement, r)
            | Some (lo, r') \<Rightarrow> if is_low lo then (utf8 (combine n lo), r') else (replacement, r))
      else if is_low n then (replacement, r)
      else (utf8 n, r))"

fun read_char :: "string \<Rightarrow> (string \<times> string) option" where
  "read_char [] = None"
| "read_char [c] =
     (if c = quote_char \<or> c = backslash \<or> is_control c then None else Some ([c], []))"
| "read_char (c # e # r) =
     (if c = backslash
      then (if e = CHR ''u''
            then (case read_hex4 r of
                    None \<Rightarrow> None
                  | Some (n, r') \<Rightarrow> Some (read_code_point n r'))
            else (case simple_escape e of None \<Rightarrow> None | Some b \<Rightarrow> Some ([b], r)))
      else if c = quote_char \<or> is_control c then None
      else Some ([c], e # r))"

function read_chars :: "string \<Rightarrow> (string \<times> string) option" where
  "read_chars [] = None"
| "read_chars (c # r) =
     (if c = quote_char then Some ([], r)
      else (case read_char (c # r) of
              None \<Rightarrow> None
            | Some (bs, r1) \<Rightarrow>
                (case read_chars r1 of None \<Rightarrow> None | Some (v, r2) \<Rightarrow> Some (bs @ v, r2))))"
  by pat_completeness auto
termination
proof (relation "measure length")
  show "wf (measure length)"
    by simp
next
  fix c :: char and r x2 bs r1
  assume "c \<noteq> quote_char" and rc: "read_char (c # r) = Some x2" and x2: "(bs, r1) = x2"
  have hex: "length b < length a" if "read_hex4 a = Some (n, b)" for a n b
    using that by (cases a rule: read_hex4.cases) (auto split: option.splits)
  have uni: "length b < length a" if "read_unicode a = Some (n, b)" for a n b
    using that by (cases a rule: read_unicode.cases) (auto split: if_splits dest: hex)
  have cp: "length b \<le> length a" if "read_code_point n a = (x, b)" for a n b x
    using that
    by (auto simp: read_code_point_def split: if_splits option.splits dest: uni)
  have "length r1 < length (c # r)"
    using rc x2
    by (cases "c # r" rule: read_char.cases)
      (auto split: if_splits option.splits dest!: hex cp)
  then show "(r1, c # r) \<in> measure length"
    by simp
qed

text \<open>
  Modelled from the spec: the reader of a scalar. A number is read to its longest extent
  and kept as its text; the character behind a scalar is left for the caller.
\<close>

definition skip_ws :: "string \<Rightarrow> string" where
  "skip_ws s = dropWhile is_ws s"

fun skip_minus :: "string \<Rightarrow> string" where
  "skip_minus [] = []"
| "skip_minus (c # r) = (if c = CHR ''-'' then r else c # r)"

fun skip_sign :: "string \<Rightarrow> string" where
  "skip_sign [] = []"
| "skip_sign (c # r) = (if c = CHR ''+'' \<or> c = CHR ''-'' then r else c # r)"

fun read_int :: "string \<Rightarrow> string option" where
  "read_int [] = None"
| "read_int (c # r) =
     (if c = CHR ''0'' then Some r
      else if is_digit c then Some (dropWhile is_digit r)
      else None)"

definition read_digits1 :: "string \<Rightarrow> string option" where
  "read_digits1 s = (if takeWhile is_digit s = [] then None else Some (dropWhile is_digit s))"

fun read_frac :: "string \<Rightarrow> string option" where
  "read_frac [] = Some []"
| "read_frac (c # r) = (if c = CHR ''.'' then read_digits1 r else Some (c # r))"

fun read_exp :: "string \<Rightarrow> string option" where
  "read_exp [] = Some []"
| "read_exp (c # r) =
     (if c = CHR ''e'' \<or> c = CHR ''E'' then read_digits1 (skip_sign r) else Some (c # r))"

definition read_number :: "string \<Rightarrow> string option" where
  "read_number s =
     (case read_int (skip_minus s) of None \<Rightarrow> None | Some r1 \<Rightarrow>
      case read_frac r1 of None \<Rightarrow> None | Some r2 \<Rightarrow> read_exp r2)"

fun read_scalar :: "string \<Rightarrow> (scalar \<times> string) option" where
  "read_scalar [] = None"
| "read_scalar (c # r) =
     (if c = quote_char
      then (case read_chars r of None \<Rightarrow> None | Some (v, r') \<Rightarrow> Some (JString v, r'))
      else if take 4 (c # r) = ''true'' then Some (JTrue, drop 4 (c # r))
      else if take 5 (c # r) = ''false'' then Some (JFalse, drop 5 (c # r))
      else if take 4 (c # r) = ''null'' then Some (JNull, drop 4 (c # r))
      else (case read_number (c # r) of
              None \<Rightarrow> None
            | Some r' \<Rightarrow> Some (JNumber (take (length (c # r) - length r') (c # r)), r')))"

text \<open>
  Modelled from the spec: the reader of the members and of the object. It returns the
  members in the order read as soon as it meets the closing brace, together with the
  characters behind it, which it never looks at. A text that ends before the closing
  brace, or has another character where the grammar wants a token, is malformed.
\<close>

fun expect1 :: "char \<Rightarrow> string \<Rightarrow> string option" where
  "expect1 c [] = None"
| "expect1 c (d # r) = (if d = c then Some r else None)"

definition read_member :: "string \<Rightarrow> ((string \<times> scalar) \<times> string) option" where
  "read_member s =
     (case expect1 quote_char (skip_ws s) of None \<Rightarrow> None | Some r1 \<Rightarrow>
      case read_chars r1 of None \<Rightarrow> None | Some (k, r2) \<Rightarrow>
      case expect1 (CHR '':'') (skip_ws r2) of None \<Rightarrow> None | Some r3 \<Rightarrow>
      case read_scalar (skip_ws r3) of None \<Rightarrow> None | Some (v, r4) \<Rightarrow> Some ((k, v), r4))"

function read_members :: "string \<Rightarrow> ((string \<times> scalar) list \<times> string) option" where
  "read_members s =
     (case read_member s of
        None \<Rightarrow> None
      | Some (m, r) \<Rightarrow>
          (case skip_ws r of
             [] \<Rightarrow> None
           | c # r' \<Rightarrow>
               if c = CHR '','' then
                 (case read_members r' of None \<Rightarrow> None | Some (ms, r'') \<Rightarrow> Some (m # ms, r''))
               else if c = CHR ''}'' then Some ([m], r')
               else None))"
  by pat_completeness auto
termination
proof (relation "measure length")
  show "wf (measure length)"
    by simp
next
  fix s :: string and x2 m r c r'
  assume rm: "read_member s = Some x2" and x2: "(m, r) = x2" and sk: "skip_ws r = c # r'"
  have ws: "length (skip_ws a) \<le> length a" for a
    by (simp add: skip_ws_def length_dropWhile_le)
  have ex: "length b < length a" if "expect1 x a = Some b" for x a b
    using that by (cases a) (auto split: if_splits)
  have hex: "length b < length a" if "read_hex4 a = Some (n, b)" for a n b
    using that by (cases a rule: read_hex4.cases) (auto split: option.splits)
  have uni: "length b < length a" if "read_unicode a = Some (n, b)" for a n b
    using that by (cases a rule: read_unicode.cases) (auto split: if_splits dest: hex)
  have cp: "length b \<le> length a" if "read_code_point n a = (x, b)" for a n b x
    using that
    by (auto simp: read_code_point_def split: if_splits option.splits dest: uni)
  have ch: "length b < length a" if "read_char a = Some (x, b)" for a x b
    using that
    by (cases a rule: read_char.cases) (auto split: if_splits option.splits dest!: hex cp)
  have chars: "length b < length a" if "read_chars a = Some (v, b)" for a v b
    using that
  proof (induction a arbitrary: v b rule: read_chars.induct)
    case 1
    then show ?case by simp
  next
    case (2 c t)
    then show ?case
      by (fastforce split: if_splits option.splits dest: ch)
  qed
  have dig: "length b \<le> length a" if "read_digits1 a = Some b" for a b
    using that by (auto simp: read_digits1_def length_dropWhile_le split: if_splits)
  have sgn: "length (skip_sign a) \<le> length a" for a
    by (cases a) auto
  have mns: "length (skip_minus a) \<le> length a" for a
    by (cases a) auto
  have int: "length b \<le> length a" if "read_int a = Some b" for a b
    using that by (cases a) (auto simp: length_dropWhile_le le_SucI split: if_splits)
  have frc: "length b \<le> length a" if "read_frac a = Some b" for a b
    using that by (cases a) (auto split: if_splits dest!: dig)
  have exp: "length b \<le> length a" if "read_exp a = Some b" for a b
  proof (cases a)
    case Nil
    with that show ?thesis by simp
  next
    case (Cons x xs)
    show ?thesis
    proof (cases "x = CHR ''e'' \<or> x = CHR ''E''")
      case True
      with that Cons have "length b \<le> length (skip_sign xs)"
        using dig by auto
      with sgn [of xs] Cons show ?thesis by simp
    next
      case False
      with that Cons show ?thesis by auto
    qed
  qed
  have num: "length b \<le> length a" if "read_number a = Some b" for a b
  proof -
    from that obtain r1 r2 where "read_int (skip_minus a) = Some r1" "read_frac r1 = Some r2"
      "read_exp r2 = Some b"
      by (auto simp: read_number_def split: option.splits)
    then have "length r1 \<le> length (skip_minus a)" "length r2 \<le> length r1"
      "length b \<le> length r2"
      using int frc exp by auto
    with mns [of a] show ?thesis by simp
  qed
  have sc: "length b \<le> length a" if "read_scalar a = Some (v, b)" for a v b
    using that
    by (cases a) (auto split: if_splits option.splits dest!: chars num)
  obtain r1 k r2 r3 v where
    1: "expect1 quote_char (skip_ws s) = Some r1" and
    2: "read_chars r1 = Some (k, r2)" and
    3: "expect1 (CHR '':'') (skip_ws r2) = Some r3" and
    4: "read_scalar (skip_ws r3) = Some (v, r)"
    using rm x2 by (auto simp: read_member_def split: option.splits)
  have "length r1 < length (skip_ws s)" "length r2 < length r1"
    "length r3 < length (skip_ws r2)" "length r \<le> length (skip_ws r3)"
    using ex [OF 1] chars [OF 2] ex [OF 3] sc [OF 4] by auto
  with ws [of s] ws [of r2] ws [of r3] have "length r < length s"
    by simp
  moreover have "length r' < length (skip_ws r)"
    using sk by simp
  ultimately have "length r' < length s"
    using ws [of r] by simp
  then show "(r', s) \<in> measure length"
    by simp
qed

declare read_members.simps [simp del]

definition read_object :: "string \<Rightarrow> ((string \<times> scalar) list \<times> string) option" where
  "read_object s =
     (case expect1 (CHR ''{'') (skip_ws s) of
        None \<Rightarrow> None
      | Some r \<Rightarrow>
          (case expect1 (CHR ''}'') (skip_ws r) of
             Some r' \<Rightarrow> Some ([], r')
           | None \<Rightarrow> read_members r))"

subsubsection \<open>The reader of a timestamp\<close>

text \<open>
  Modelled from the spec: the reader of an RFC 3339 \<^verbatim>\<open>date-time\<close>. The year is
  exactly four digits and every other number exactly two, each followed by its separator;
  \<^verbatim>\<open>T\<close> and \<^verbatim>\<open>Z\<close> may be in lower case (section 5.6 of the RFC); a
  fraction of a second is a point and at least one digit; the zone is \<^verbatim>\<open>Z\<close> or a
  signed offset; nothing may follow the zone. A text of that shape whose numbers are out
  of range (a month 13, a day 30 in February, an hour 24) is no timestamp.
\<close>

fun read2 :: "string \<Rightarrow> (nat \<times> string) option" where
  "read2 (a # b # r) =
     (if is_digit a \<and> is_digit b then Some (10 * digit_val a + digit_val b, r) else None)"
| "read2 s = None"

definition read4 :: "string \<Rightarrow> (nat \<times> string) option" where
  "read4 s =
     (case read2 s of None \<Rightarrow> None | Some (hi, r1) \<Rightarrow>
      case read2 r1 of None \<Rightarrow> None | Some (lo, r2) \<Rightarrow> Some (100 * hi + lo, r2))"

fun expect :: "char list \<Rightarrow> string \<Rightarrow> string option" where
  "expect cs [] = None"
| "expect cs (c # r) = (if c \<in> set cs then Some r else None)"

fun read_fraction :: "string \<Rightarrow> (nat list \<times> string) option" where
  "read_fraction [] = Some ([], [])"
| "read_fraction (c # r) =
     (if c = CHR ''.''
      then (if takeWhile is_digit r = [] then None
            else Some (map digit_val (takeWhile is_digit r), dropWhile is_digit r))
      else Some ([], c # r))"

fun read_zone :: "string \<Rightarrow> (zone \<times> string) option" where
  "read_zone [] = None"
| "read_zone (c # r) =
     (if c = CHR ''Z'' \<or> c = CHR ''z'' then Some (UTC, r)
      else if c = CHR ''+'' \<or> c = CHR ''-''
      then (case read2 r of None \<Rightarrow> None | Some (h, r1) \<Rightarrow>
            case expect '':'' r1 of None \<Rightarrow> None | Some r2 \<Rightarrow>
            case read2 r2 of None \<Rightarrow> None | Some (m, r3) \<Rightarrow>
            Some (Offset (c = CHR ''+'') h m, r3))
      else None)"

definition read_date :: "string \<Rightarrow> ((nat \<times> nat \<times> nat) \<times> string) option" where
  "read_date s =
     (case read4 s of None \<Rightarrow> None | Some (y, r1) \<Rightarrow>
      case expect ''-'' r1 of None \<Rightarrow> None | Some r2 \<Rightarrow>
      case read2 r2 of None \<Rightarrow> None | Some (mo, r3) \<Rightarrow>
      case expect ''-'' r3 of None \<Rightarrow> None | Some r4 \<Rightarrow>
      case read2 r4 of None \<Rightarrow> None | Some (d, r5) \<Rightarrow> Some ((y, mo, d), r5))"

definition read_clock :: "string \<Rightarrow> ((nat \<times> nat \<times> nat) \<times> string) option" where
  "read_clock s =
     (case read2 s of None \<Rightarrow> None | Some (h, r1) \<Rightarrow>
      case expect '':'' r1 of None \<Rightarrow> None | Some r2 \<Rightarrow>
      case read2 r2 of None \<Rightarrow> None | Some (mi, r3) \<Rightarrow>
      case expect '':'' r3 of None \<Rightarrow> None | Some r4 \<Rightarrow>
      case read2 r4 of None \<Rightarrow> None | Some (se, r5) \<Rightarrow> Some ((h, mi, se), r5))"

definition parse_civil :: "string \<Rightarrow> civil option" where
  "parse_civil s =
     (case read_date s of None \<Rightarrow> None | Some ((y, mo, d), r1) \<Rightarrow>
      case expect ''Tt'' r1 of None \<Rightarrow> None | Some r2 \<Rightarrow>
      case read_clock r2 of None \<Rightarrow> None | Some ((h, mi, se), r3) \<Rightarrow>
      case read_fraction r3 of None \<Rightarrow> None | Some (fr, r4) \<Rightarrow>
      case read_zone r4 of None \<Rightarrow> None | Some (z, r5) \<Rightarrow>
      if r5 = []
      then Some \<lparr>year = y, month = mo, day = d, hour = h, minute = mi, second = se,
                 fraction = fr, zone = z\<rparr>
      else None)"

definition parse_time :: "string \<Rightarrow> Time option" where
  "parse_time s =
     (case parse_civil s of
        None \<Rightarrow> None
      | Some c \<Rightarrow> if valid_civil c then Some (Time_of c) else None)"

subsubsection \<open>From the members to the Session\<close>

text \<open>
  Modelled from the spec: a member sets the field of its name; a member of another name
  is skipped; a later member of the same name wins; names are compared as they are
  written. The value of a field is a string, and that of \<open>ExpiresAt\<close> a string that is
  a timestamp; \<^verbatim>\<open>null\<close> leaves the field as it is; a number or a truth value in
  the place of a field's string is malformed.
\<close>

definition set_string ::
  "(string \<Rightarrow> Session \<Rightarrow> Session) \<Rightarrow> scalar \<Rightarrow> Session \<Rightarrow> Session option" where
  "set_string upd v s =
     (case v of JString x \<Rightarrow> Some (upd x s) | JNull \<Rightarrow> Some s | _ \<Rightarrow> None)"

definition set_time :: "scalar \<Rightarrow> Session \<Rightarrow> Session option" where
  "set_time v s =
     (case v of
        JString x \<Rightarrow>
          (case parse_time x of None \<Rightarrow> None | Some t \<Rightarrow> Some (s\<lparr>Session.ExpiresAt := t\<rparr>))
      | JNull \<Rightarrow> Some s
      | _ \<Rightarrow> None)"

definition set_field :: "string \<times> scalar \<Rightarrow> Session \<Rightarrow> Session option" where
  "set_field kv s =
     (case kv of (k, v) \<Rightarrow>
        if k = ''AuthURL'' then set_string (\<lambda>x s. s\<lparr>Session.AuthURL := x\<rparr>) v s
        else if k = ''AccessToken'' then set_string (\<lambda>x s. s\<lparr>Session.AccessToken := x\<rparr>) v s
        else if k = ''Hostname'' then set_string (\<lambda>x s. s\<lparr>Hostname := x\<rparr>) v s
        else if k = ''HMAC'' then set_string (\<lambda>x s. s\<lparr>HMAC := x\<rparr>) v s
        else if k = ''ExpiresAt'' then set_time v s
        else Some s)"

fun set_fields :: "(string \<times> scalar) list \<Rightarrow> Session \<Rightarrow> Session option" where
  "set_fields [] s = Some s"
| "set_fields (kv # kvs) s =
     (case set_field kv s of None \<Rightarrow> None | Some s' \<Rightarrow> set_fields kvs s')"

text \<open>Modelled from the spec: \<^verbatim>\<open>Unmarshal\<close> reads the object at the start of the
  text into a fresh Session and fails with \<open>ErrorDeserialize\<close> on malformed input.\<close>

definition Unmarshal :: "string \<Rightarrow> session_error + Session" where
  "Unmarshal data =
     (case read_object data of
        None \<Rightarrow> Inl ErrorDeserialize
      | Some (ms, rest) \<Rightarrow>
          (case set_fields ms zeroSession of
             None \<Rightarrow> Inl ErrorDeserialize
           | Some s \<Rightarrow> Inr s))"

text \<open>
  Modelled from the spec: the two notions of its sentence on \<^verbatim>\<open>Unmarshal\<close>. A
  well-formed serialised Session is a text that the grammar derives as an object, from
  its first character to its closing brace, and whose members give every field a value of
  its type; the Session it stands for has the fields of the members. An input is
  malformed when no text it starts with is a well-formed serialised Session.
\<close>

definition serialized_session :: "string \<Rightarrow> Session \<Rightarrow> bool" where
  "serialized_session t s = (\<exists>ms. object_text t ms \<and> set_fields ms zeroSession = Some s)"

definition malformed :: "string \<Rightarrow> bool" where
  "malformed data = (\<not> (\<exists>t garbage s. data = t @ garbage \<and> serialized_session t s))"

subsection \<open>Test doubles for the external collaborators\<close>

text \<open>
  A transport that answers the tenant-discovery URL with \<open>r1\<close> and every other URL
  with \<open>r2\<close>, and decoders with fixed results; the raw payload is the body itself.
\<close>

definition stubEnv ::
  "(error + Response) \<Rightarrow> (error + Response) \<Rightarrow> (error + XeroTenant option list)
     \<Rightarrow> (error + XeroOrganization list) \<Rightarrow> string env" where
  "stubEnv r1 r2 tenants orgs =
     \<lparr>Do = (\<lambda>req. if URL req = tenantsURL then r1 else r2),
      decodeTenants = (\<lambda>bits. tenants),
      decodeRawData = (\<lambda>bits. Inr (Some bits)),
      decodeOrganisations = (\<lambda>bits. orgs)\<rparr>"

definition okResponse :: "string \<Rightarrow> error + Response" where
  "okResponse bits = Inr \<lparr>StatusCode = 200, Body = Inr bits\<rparr>"

definition statusResponse :: "int \<Rightarrow> error + Response" where
  "statusResponse code = Inr \<lparr>StatusCode = code, Body = Inr ''''\<rparr>"

text \<open>The provider of the package's tests (\<^verbatim>\<open>provider()\<close> in session_test.go).\<close>

definition provider :: Provider where
  "provider = New ''key'' ''secret'' ''/foo'' []"

definition tokenSession :: Session where
  "tokenSession =
     \<lparr>Session.AuthURL = ''/foo'', Session.AccessToken = ''tok'',
      Session.RefreshToken = ''ref'', Hostname = '''', HMAC = '''',
      Session.ExpiresAt =
        Time_of \<lparr>year = 2030, month = 6, day = 15, hour = 12, minute = 30, second = 0,
                 fraction = [], zone = UTC\<rparr>\<rparr>"

definition tenantA :: XeroTenant where
  "tenantA = \<lparr>ID = ''c1'', TenantID = ''t-1'', TenantType = ''ORGANISATION''\<rparr>"

definition tenantB :: XeroTenant where
  "tenantB = \<lparr>ID = ''c2'', TenantID = ''t-2'', TenantType = ''ORGANISATION''\<rparr>"

definition orgA :: XeroOrganization where
  "orgA = \<lparr>XeroOrganization.Name = ''Acme'', LegalName = ''Acme Ltd'', OrganisationType = ''COMPANY'',
            CountryCode = ''NZ'', ShortCode = ''!x1''\<rparr>"

definition orgB :: XeroOrganization where
  "orgB = \<lparr>XeroOrganization.Name = ''Other'', LegalName = ''Other Inc'', OrganisationType = ''COMPANY'',
            CountryCode = ''AU'', ShortCode = ''!y2''\<rparr>"

section \<open>Properties of the adapter\<close>

subsection \<open>The requests and the two fetch functions\<close>

lemma request_headers:
  "URL (tenantsRequest sess) = tenantsURL"
  "URL (profileRequest sess tenantID) = endpointProfile"
  "Header (tenantsRequest sess) ''Authorization'' = Some (''Bearer '' @ Session.AccessToken sess)"
  "Header (profileRequest sess tenantID) ''Authorization''
     = Some (''Bearer '' @ Session.AccessToken sess)"
  "Header (profileRequest sess tenantID) ''Xero-Tenant-Id'' = Some tenantID"
  by (simp_all add: tenantsRequest_def profileRequest_def Header_Set_def NewRequest_def)

lemma fetchAuthorizedTenants_calls:
  "fst (fetchAuthorizedTenants p e sess) = [tenantsRequest sess]"
  by (simp add: fetchAuthorizedTenants_def Let_def)

lemma fetchTenantInformation_calls:
  "fst (fetchTenantInformation p e user sess tenantID) = [profileRequest sess tenantID]"
  by (simp add: fetchTenantInformation_def Let_def)

lemma fetchAuthorizedTenants_decoded:
  assumes "Do e (tenantsRequest sess) = Inr response"
    and "StatusCode response = 200"
    and "Body response = Inr bits"
    and "decodeTenants e bits = Inr tenants"
  shows "fetchAuthorizedTenants p e sess = ([tenantsRequest sess], Inr tenants)"
  using assms by (simp add: fetchAuthorizedTenants_def StatusOK_def)

lemma fetchAuthorizedTenants_status:
  assumes "Do e (tenantsRequest sess) = Inr response"
    and "StatusCode response \<noteq> 200"
  shows "fetchAuthorizedTenants p e sess =
     ([tenantsRequest sess],
      Inl (ErrorString (providerName p @ '' responded with a '' @ Itoa (StatusCode response)
             @ '' trying to fetch authorized xero tenants information'')))"
  using assms by (simp add: fetchAuthorizedTenants_def StatusOK_def)

lemma fetchTenantInformation_status:
  assumes "Do e (profileRequest sess tenantID) = Inr resp"
    and "StatusCode resp \<noteq> 200"
  shows "snd (fetchTenantInformation p e user sess tenantID) =
     Return (user,
       Some (ErrorString (providerName p @ '' responded with a '' @ Itoa (StatusCode resp)
               @ '' trying to fetch xero tenant information'')))"
  using assms by (simp add: fetchTenantInformation_def StatusOK_def)

lemma fetchTenantInformation_empty_organisations:
  assumes "Do e (profileRequest sess tenantID) = Inr resp"
    and "StatusCode resp = 200"
    and "Body resp = Inr bits"
    and "decodeRawData e bits = Inr raw"
    and "decodeOrganisations e bits = Inr []"
  shows "snd (fetchTenantInformation p e user sess tenantID) = Panic (IndexOutOfRange 0 0)"
  using assms by (simp add: fetchTenantInformation_def StatusOK_def)

text \<open>With a token, and a tenant list whose first element is a tenant, the run is the
  tenant discovery followed by the profile fetch for that tenant.\<close>

lemma FetchUser_first_tenant:
  assumes "Session.AccessToken sess \<noteq> ''''"
    and "fetchAuthorizedTenants p e sess = (calls, Inr (Some tenant # rest))"
  shows "FetchUser p e sess =
     (calls @ fst (fetchTenantInformation p e (newUser p sess) sess (TenantID tenant)),
      snd (fetchTenantInformation p e (newUser p sess) sess (TenantID tenant)))"
  using assms by (simp add: FetchUser_def newUser_def split: prod.splits)

text \<open>A first element that is nil (JSON \<^verbatim>\<open>null\<close>) is not a tenant: reading its
  \<open>TenantID\<close> panics, after the one request of the tenant discovery.\<close>

lemma FetchUser_nil_first_tenant:
  assumes "Session.AccessToken sess \<noteq> ''''"
    and "fetchAuthorizedTenants p e sess = (calls, Inr (None # rest))"
  shows "FetchUser p e sess = (calls, Panic NilPointerDereference)"
  using assms by (simp add: FetchUser_def)

lemma Provider_Name_SetName: "Provider_Name (SetName name p) = name"
  by (simp add: Provider_Name_def SetName_def)

lemma Provider_Name_New: "Provider_Name (New clientKey secret callbackURL scps) = ''xero2''"
  by (simp add: Provider_Name_def New_def providerName_const_def)

lemma stubEnv_simps:
  "Do (stubEnv r1 r2 tenants orgs) (tenantsRequest sess) = r1"
  "Do (stubEnv r1 r2 tenants orgs) (profileRequest sess tenantID) = r2"
  "decodeTenants (stubEnv r1 r2 tenants orgs) bits = tenants"
  "decodeRawData (stubEnv r1 r2 tenants orgs) bits = Inr (Some bits)"
  "decodeOrganisations (stubEnv r1 r2 tenants orgs) bits = orgs"
  by (simp_all add: stubEnv_def tenantsRequest_def profileRequest_def Header_Set_def
      NewRequest_def tenantsURL_def endpointProfile_def)

lemma Itoa_401: "Itoa 401 = ''401''"
  by (simp add: Itoa_def show_nat.simps)

subsection \<open>What a message names\<close>

lemma HasPrefix_append: "HasPrefix (p @ s) p"
  by (induction p) simp_all

lemma Contains_Nil: "Contains s []"
  by (cases s) simp_all

lemma Contains_append: "Contains (p @ s) p"
  by (cases p) (simp_all add: Contains_Nil HasPrefix_append)

text \<open>The three errors the adapter formats itself start with the provider's name, and
  the two upstream-status messages differ in the step they name.\<close>

lemma no_access_token_message:
  assumes "Session.AccessToken sess = ''''"
  shows "\<exists>user err. snd (FetchUser p e sess) = Return (user, Some err)
     \<and> Contains (Error err) (Provider_Name p)"
  using assms by (simp add: FetchUser_def Provider_Name_def Contains_append)

lemma tenants_status_message:
  assumes "Session.AccessToken sess \<noteq> ''''"
    and "Do e (tenantsRequest sess) = Inr response"
    and "StatusCode response \<noteq> 200"
  shows "\<exists>user err. snd (FetchUser p e sess) = Return (user, Some err)
     \<and> Contains (Error err) (Provider_Name p)
     \<and> Error err = Provider_Name p @ '' responded with a '' @ Itoa (StatusCode response)
          @ '' trying to fetch authorized xero tenants information''"
  using assms(1) fetchAuthorizedTenants_status [OF assms(2,3), of p]
  by (simp add: FetchUser_def Provider_Name_def Contains_append)

lemma profile_status_message:
  assumes "Session.AccessToken sess \<noteq> ''''"
    and "fetchAuthorizedTenants p e sess = (calls, Inr (Some tenant # rest))"
    and "Do e (profileRequest sess (TenantID tenant)) = Inr resp"
    and "StatusCode resp \<noteq> 200"
  shows "\<exists>user err. snd (FetchUser p e sess) = Return (user, Some err)
     \<and> Contains (Error err) (Provider_Name p)
     \<and> Error err = Provider_Name p @ '' responded with a '' @ Itoa (StatusCode resp)
          @ '' trying to fetch xero tenant information''"
  using fetchTenantInformation_status [OF assms(3,4), of p "newUser p sess"]
  by (simp add: FetchUser_first_tenant [OF assms(1,2)] Provider_Name_def Contains_append)

subsection \<open>Construction\<close>

text \<open>
  Claim C7. A provider constructed with an empty scope list has, as the scope list of its
  OAuth configuration, exactly the five default scopes openid, profile, email,
  offline_access and accounting.settings.read, in that order, each with one space
  appended.
\<close>

theorem New_default_scopes:
  "map_option Scopes (config (New clientKey secret callbackURL [])) =
     Some [''openid '', ''profile '', ''email '', ''offline_access '',
           ''accounting.settings.read '']"
  by (simp add: New_def newConfig_def defaultScopes_def ScopeOpenID_def ScopeProfile_def
      ScopeEmail_def ScopeOfflineAccess_def ScopeAccountingSettingsRead_def)

subsection \<open>FetchUser: the precondition and the tenant discovery\<close>

text \<open>
  Claim C3. For a Session whose AccessToken is the empty string, FetchUser returns the
  error that the named provider cannot get organization information without an access
  token, and hands no request to the transport: neither the tenant-discovery request nor
  the profile request is made.
\<close>

theorem FetchUser_no_access_token:
  assumes "Session.AccessToken sess = ''''"
  shows "fst (FetchUser p e sess) = [] \<and>
     (\<exists>user. snd (FetchUser p e sess) =
        Return (user, Some (ErrorString (Provider_Name p
                   @ '' cannot get organization information without accessToken''))))"
  using assms by (simp add: FetchUser_def Provider_Name_def)

theorem FetchUser_no_access_token_witness:
  "Session.AccessToken zeroSession = '''' \<and>
   fst (FetchUser provider
          (stubEnv (okResponse ''[]'') (okResponse ''{}'') (Inr []) (Inr [])) zeroSession) = [] \<and>
   (\<exists>user. snd (FetchUser provider
          (stubEnv (okResponse ''[]'') (okResponse ''{}'') (Inr []) (Inr [])) zeroSession) =
        Return (user, Some (ErrorString
          ''xero2 cannot get organization information without accessToken'')))"
  using FetchUser_no_access_token [of zeroSession provider
      "stubEnv (okResponse ''[]'') (okResponse ''{}'') (Inr []) (Inr [])"]
  by (simp add: zeroSession_def Provider_Name_def provider_def New_def providerName_const_def)

text \<open>
  Claim C4. When the tenant-discovery call succeeds (the transport answers, the status is
  200, the body is read and decoded) and the decoded tenant list is empty, FetchUser
  returns the error "No authorized xero tenants found", and the only request of the run is
  the tenant-discovery request: the profile call is never attempted.
\<close>

theorem FetchUser_no_authorized_tenants:
  assumes "Session.AccessToken sess \<noteq> ''''"
    and "Do e (tenantsRequest sess) = Inr response"
    and "StatusCode response = 200"
    and "Body response = Inr bits"
    and "decodeTenants e bits = Inr []"
  shows "fst (FetchUser p e sess) = [tenantsRequest sess] \<and>
     URL (tenantsRequest sess) = tenantsURL \<and>
     (\<exists>user. snd (FetchUser p e sess) =
        Return (user, Some (ErrorString ''No authorized xero tenants found'')))"
  using assms(1) fetchAuthorizedTenants_decoded [OF assms(2-5), of p]
  by (simp add: FetchUser_def request_headers)

theorem FetchUser_no_authorized_tenants_witness:
  "Session.AccessToken tokenSession \<noteq> '''' \<and>
   fst (FetchUser provider
          (stubEnv (okResponse ''[]'') (okResponse ''{}'') (Inr []) (Inr [orgA])) tokenSession)
     = [tenantsRequest tokenSession] \<and>
   URL (tenantsRequest tokenSession) = ''https://api.xero.com/connections'' \<and>
   (\<exists>user. snd (FetchUser provider
          (stubEnv (okResponse ''[]'') (okResponse ''{}'') (Inr []) (Inr [orgA])) tokenSession) =
        Return (user, Some (ErrorString ''No authorized xero tenants found'')))"
  using FetchUser_no_authorized_tenants [of tokenSession
      "stubEnv (okResponse ''[]'') (okResponse ''{}'') (Inr []) (Inr [orgA])"
      "\<lparr>StatusCode = 200, Body = Inr ''[]''\<rparr>" "''[]''" provider]
  by (simp add: tokenSession_def stubEnv_def okResponse_def tenantsRequest_def Header_Set_def
      NewRequest_def tenantsURL_def)

subsection \<open>FetchUser: the tenant-scoped profile fetch\<close>

text \<open>
  Claim C5. For every run whose tenant-discovery call decodes to a non-empty tenant list,
  the profile request is to carry the bearer access token of the tenant-discovery request
  and the header Xero-Tenant-Id with the TenantID of the first element of the decoded
  list. The list is a Go slice of pointers, \<^verbatim>\<open>[]*XeroTenant\<close>, and the JSON
  decoder stores nil for an element \<^verbatim>\<open>null\<close>. Evaluated at a response (status
  200, body \<^verbatim>\<open>[null,{"tenantId":"t-2"}]\<close>) that decodes to the non-empty list
  of a nil element and a tenant, the adapter passes the length check and reads
  \<^verbatim>\<open>tenants[0].TenantID\<close> through the nil pointer: the run ends in a panic after
  the one request of the tenant discovery, and no profile request is made.
\<close>

theorem FetchUser_nil_first_tenant_panics:
  \<open>FetchUser provider
     (stubEnv (okResponse ''[null,{"tenantId":"t-2"}]'')
        (okResponse ''{"Organisations":[{"Name":"Acme"}]}'')
        (Inr [None, Some tenantB]) (Inr [orgA]))
     tokenSession
   = ([tenantsRequest tokenSession], Panic NilPointerDereference)\<close>
  by (simp add: FetchUser_def fetchAuthorizedTenants_def stubEnv_simps okResponse_def
      StatusOK_def tokenSession_def)

text \<open>
  When the first element of the decoded list is a tenant record, the run makes two
  requests: the tenant-discovery request and the profile request. The profile request
  carries the same Authorization header as the tenant-discovery request, the bearer access
  token of the Session, and the header Xero-Tenant-Id whose value is the TenantID of that
  record.
\<close>

lemma FetchUser_profile_request_tenant_record:
  assumes "Session.AccessToken sess \<noteq> ''''"
    and "Do e (tenantsRequest sess) = Inr response"
    and "StatusCode response = 200"
    and "Body response = Inr bits"
    and "decodeTenants e bits = Inr (Some tenant # rest)"
  shows "\<exists>req1 req2. fst (FetchUser p e sess) = [req1, req2] \<and>
     URL req1 = tenantsURL \<and> URL req2 = endpointProfile \<and>
     Header req1 ''Authorization'' = Some (''Bearer '' @ Session.AccessToken sess) \<and>
     Header req2 ''Authorization'' = Header req1 ''Authorization'' \<and>
     Header req2 ''Xero-Tenant-Id'' = Some (TenantID tenant)"
proof -
  have "fetchAuthorizedTenants p e sess = ([tenantsRequest sess], Inr (Some tenant # rest))"
    using assms(2-5) by (rule fetchAuthorizedTenants_decoded)
  then have "fst (FetchUser p e sess)
      = [tenantsRequest sess, profileRequest sess (TenantID tenant)]"
    using assms(1) by (simp add: FetchUser_first_tenant fetchTenantInformation_calls)
  then show ?thesis
    by (simp add: request_headers)
qed

lemma FetchUser_profile_request_two_tenants:
  "fst (FetchUser provider
          (stubEnv (okResponse ''[..]'') (okResponse ''{..}'')
             (Inr [Some tenantA, Some tenantB]) (Inr [orgA])) tokenSession)
     = [tenantsRequest tokenSession, profileRequest tokenSession ''t-1'']"
  by (simp add: FetchUser_def fetchAuthorizedTenants_def fetchTenantInformation_def stubEnv_simps
      okResponse_def StatusOK_def tokenSession_def tenantA_def split: prod.splits)

text \<open>
  Claim C2. In a run in which both HTTP calls return status 200 (so the Session has a
  token, the tenant discovery decoded to a list that starts with a tenant, and both bodies
  were read) and the profile response decodes, in both passes over its bytes, to a
  non-empty organizations list, FetchUser returns no error and an IdentityRecord whose
  Name is the first organization's Name, whose NickName is its LegalName and whose UserID
  is its ShortCode.
\<close>

theorem FetchUser_first_organisation:
  assumes "Session.AccessToken sess \<noteq> ''''"
    and "Do e (tenantsRequest sess) = Inr response"
    and "StatusCode response = 200"
    and "Body response = Inr bits"
    and "decodeTenants e bits = Inr (Some tenant # rest)"
    and "Do e (profileRequest sess (TenantID tenant)) = Inr resp"
    and "StatusCode resp = 200"
    and "Body resp = Inr bits2"
    and "decodeRawData e bits2 = Inr raw"
    and "decodeOrganisations e bits2 = Inr (org # orgs)"
  shows "\<exists>user. snd (FetchUser p e sess) = Return (user, None) \<and>
     User.Name user = XeroOrganization.Name org \<and>
     NickName user = LegalName org \<and>
     UserID user = ShortCode org"
proof -
  have "fetchAuthorizedTenants p e sess = ([tenantsRequest sess], Inr (Some tenant # rest))"
    using assms(2-5) by (rule fetchAuthorizedTenants_decoded)
  then have "snd (FetchUser p e sess) =
      snd (fetchTenantInformation p e (newUser p sess) sess (TenantID tenant))"
    using assms(1) by (simp add: FetchUser_first_tenant)
  then show ?thesis
    using assms(6-10) by (simp add: fetchTenantInformation_def StatusOK_def)
qed

theorem FetchUser_first_organisation_witness:
  "Session.AccessToken tokenSession \<noteq> '''' \<and>
   (\<exists>user.
     snd (FetchUser provider
            (stubEnv (okResponse ''[..]'') (okResponse ''{..}'')
               (Inr [Some tenantA, Some tenantB]) (Inr [orgA, orgB])) tokenSession)
       = Return (user, None) \<and>
     User.Name user = ''Acme'' \<and> NickName user = ''Acme Ltd'' \<and> UserID user = ''!x1'')"
  using FetchUser_first_organisation [of tokenSession
      "stubEnv (okResponse ''[..]'') (okResponse ''{..}'')
         (Inr [Some tenantA, Some tenantB]) (Inr [orgA, orgB])"
      "\<lparr>StatusCode = 200, Body = Inr ''[..]''\<rparr>" "''[..]''" tenantA "[Some tenantB]"
      "\<lparr>StatusCode = 200, Body = Inr ''{..}''\<rparr>" "''{..}''" "Some ''{..}''" orgA "[orgB]"
      provider]
  by (simp add: tokenSession_def stubEnv_def okResponse_def tenantsRequest_def
      profileRequest_def Header_Set_def NewRequest_def tenantA_def orgA_def tenantsURL_def
      endpointProfile_def)

text \<open>
  Claim C1. For a profile response whose decoded organizations array is empty, FetchUser
  is to fail with an explicit error. Evaluated at such a response (status 200, body
  \<^verbatim>\<open>{"Organisations":[]}\<close>), the adapter instead reads index 0 of the empty
  array: after both requests the run ends in the panic "index out of range [0] with length
  0", and no error value is returned.
\<close>

theorem FetchUser_empty_organisations_panics:
  \<open>FetchUser provider
     (stubEnv (okResponse ''[{"tenantId":"t-1"}]'') (okResponse ''{"Organisations":[]}'')
        (Inr [Some tenantA]) (Inr []))
     tokenSession
   = ([tenantsRequest tokenSession, profileRequest tokenSession ''t-1''],
      Panic (IndexOutOfRange 0 0))\<close>
  by (simp add: FetchUser_def fetchAuthorizedTenants_def fetchTenantInformation_def stubEnv_simps
      okResponse_def StatusOK_def tokenSession_def tenantA_def)

subsection \<open>FetchUser: what it returns beside an error\<close>

text \<open>
  Claim C8. Every error FetchUser returns for a missing access token, an upstream status
  other than 200 or an empty tenant list is to name the provider by its current registered
  name and the failing step. Evaluated at an empty tenant list for the provider registered
  as xero2, the message is the fixed text "No authorized xero tenants found", which does
  not contain the name xero2 (the other messages do: \<open>no_access_token_message\<close>,
  \<open>tenants_status_message\<close>, \<open>profile_status_message\<close>).
\<close>

theorem FetchUser_no_tenants_message_omits_provider:
  "snd (FetchUser provider (stubEnv (okResponse ''[]'') (okResponse ''{}'') (Inr []) (Inr []))
          tokenSession)
     = Return (newUser provider tokenSession,
         Some (ErrorString ''No authorized xero tenants found''))
   \<and> Provider_Name provider = ''xero2''
   \<and> \<not> Contains (Error (ErrorString ''No authorized xero tenants found''))
          (Provider_Name provider)"
  by (simp add: FetchUser_def fetchAuthorizedTenants_def stubEnv_simps
      okResponse_def StatusOK_def tokenSession_def newUser_def Provider_Name_def provider_def
      New_def providerName_const_def)

text \<open>
  Claim C10. Whenever FetchUser returns an error, the IdentityRecord returned beside it has
  the AccessToken, the RefreshToken and the ExpiresAt of the input Session, and its
  Provider is the adapter's current registered name.
\<close>

theorem FetchUser_error_keeps_session_fields:
  assumes "snd (FetchUser p e sess) = Return (user, Some err)"
  shows "User.AccessToken user = Session.AccessToken sess \<and>
     User.RefreshToken user = Session.RefreshToken sess \<and>
     User.ExpiresAt user = Session.ExpiresAt sess \<and>
     Provider user = Provider_Name p"
  using assms
  by (auto simp: FetchUser_def fetchAuthorizedTenants_def fetchTenantInformation_def Let_def
      split: if_splits sum.splits list.splits option.splits prod.splits)

theorem FetchUser_error_keeps_session_fields_witness:
  "snd (FetchUser (SetName ''xero-nz'' provider)
          (stubEnv (statusResponse 401) (okResponse ''{}'') (Inr []) (Inr [])) tokenSession)
     = Return (newUser (SetName ''xero-nz'' provider) tokenSession :: string User,
         Some (ErrorString
           ''xero-nz responded with a 401 trying to fetch authorized xero tenants information''))
   \<and> User.AccessToken (newUser (SetName ''xero-nz'' provider) tokenSession :: string User)
        = ''tok''
   \<and> User.RefreshToken (newUser (SetName ''xero-nz'' provider) tokenSession :: string User)
        = ''ref''
   \<and> User.ExpiresAt (newUser (SetName ''xero-nz'' provider) tokenSession :: string User)
        = Session.ExpiresAt tokenSession
   \<and> Provider (newUser (SetName ''xero-nz'' provider) tokenSession :: string User)
        = ''xero-nz''"
  using FetchUser_error_keeps_session_fields [of "SetName ''xero-nz'' provider"
      "stubEnv (statusResponse 401) (okResponse ''{}'') (Inr []) (Inr [])" tokenSession
      "newUser (SetName ''xero-nz'' provider) tokenSession"
      "ErrorString
         ''xero-nz responded with a 401 trying to fetch authorized xero tenants information''"]
  by (simp add: FetchUser_def fetchAuthorizedTenants_def stubEnv_simps statusResponse_def
      StatusOK_def SetName_def Provider_Name_def newUser_def tokenSession_def Itoa_401)

section \<open>Properties of the session's serialisation\<close>

subsection \<open>The timestamp reader reads what the writer wrote\<close>

lemma digit_val_dig: "d < 10 \<Longrightarrow> digit_val (dig d) = d"
proof -
  assume "d < 10"
  then consider "d = 0" | "d = 1" | "d = 2" | "d = 3" | "d = 4" | "d = 5" | "d = 6" | "d = 7"
    | "d = 8" | "d = 9"
    by atomize_elim arith
  then show ?thesis
    by cases (simp_all add: digit_val_def dig_def)
qed

lemma is_digit_dig: "d < 10 \<Longrightarrow> is_digit (dig d)"
  unfolding is_digit_def dig_def by (rule nth_mem) simp

lemma read2_d2: "n < 100 \<Longrightarrow> read2 (d2 n @ r) = Some (n, r)"
  by (simp add: d2_def is_digit_dig digit_val_dig)

lemma read4_d4: "n < 10000 \<Longrightarrow> read4 (d4 n @ r) = Some (n, r)"
proof -
  assume n: "n < 10000"
  then have hi: "n div 100 mod 100 < 100" and lo: "n mod 100 < 100"
    by simp_all
  have "n div 100 mod 100 = n div 100"
    using n by simp
  then have "100 * (n div 100 mod 100) + n mod 100 = n"
    by simp
  then show ?thesis
    using read2_d2 [OF hi, of "d2 (n mod 100) @ r"] read2_d2 [OF lo, of r]
    by (simp add: read4_def d4_def)
qed

lemma takeWhile_all: "list_all P xs \<Longrightarrow> \<not> P c \<Longrightarrow> takeWhile P (xs @ c # r) = xs"
  by (induction xs) auto

lemma dropWhile_all: "list_all P xs \<Longrightarrow> \<not> P c \<Longrightarrow> dropWhile P (xs @ c # r) = c # r"
  by (induction xs) auto

lemma zone_starts:
  "format_zone z = c # r \<Longrightarrow> \<not> is_digit c \<and> c \<noteq> CHR ''.''"
proof (cases z)
  case UTC
  assume "format_zone z = c # r"
  with UTC show ?thesis by (auto simp: is_digit_def)
next
  case (Offset east h m)
  assume "format_zone z = c # r"
  with Offset show ?thesis by (cases east) (auto simp: is_digit_def)
qed

lemma format_zone_not_Nil: "format_zone z \<noteq> []"
  by (cases z) auto

lemma read_fraction_format:
  assumes "list_all (\<lambda>d. d < 10) ds"
  shows "read_fraction (format_fraction ds @ format_zone z) = Some (ds, format_zone z)"
proof -
  obtain c r where z: "format_zone z = c # r"
    using format_zone_not_Nil by (cases "format_zone z") auto
  then have c: "\<not> is_digit c" "c \<noteq> CHR ''.''"
    using zone_starts by auto
  have digs: "list_all is_digit (map dig ds)"
    using assms by (induction ds) (simp_all add: is_digit_dig)
  have vals: "map digit_val (map dig ds) = ds"
    using assms by (induction ds) (simp_all add: digit_val_dig)
  have tw: "takeWhile is_digit (map dig ds @ c # r) = map dig ds"
    using digs c(1) by (rule takeWhile_all)
  have dw: "dropWhile is_digit (map dig ds @ c # r) = c # r"
    using digs c(1) by (rule dropWhile_all)
  show ?thesis
  proof (cases "ds = []")
    case True
    then show ?thesis using z c by (simp add: format_fraction_def)
  next
    case False
    then show ?thesis
      using z tw dw vals by (simp add: format_fraction_def del: map_map)
  qed
qed

lemma read_zone_format: "valid_zone z \<Longrightarrow> read_zone (format_zone z) = Some (z, [])"
proof (cases z)
  case UTC
  then show ?thesis by simp
next
  case (Offset east h m)
  assume "valid_zone z"
  with Offset have h: "h < 100" and m: "m < 100" by auto
  show ?thesis
    using Offset read2_d2 [OF h, of "CHR '':'' # d2 m"] read2_d2 [OF m, of "[]"]
    by (cases east) simp_all
qed

lemma days_in_month_le: "days_in_month y m \<le> 31"
  by (simp add: days_in_month_def)

lemma read_date_format:
  assumes "y < 10000" "mo < 100" "d < 100"
  shows "read_date (d4 y @ ''-'' @ d2 mo @ ''-'' @ d2 d @ r) = Some ((y, mo, d), r)"
  using assms by (simp add: read_date_def read4_d4 read2_d2)

lemma read_clock_format:
  assumes "h < 100" "mi < 100" "se < 100"
  shows "read_clock (d2 h @ '':'' @ d2 mi @ '':'' @ d2 se @ r) = Some ((h, mi, se), r)"
  using assms by (simp add: read_clock_def read2_d2)

lemma parse_civil_format:
  assumes "valid_civil c"
  shows "parse_civil (format_civil c) = Some c"
proof -
  have d: "day c < 100"
    using assms days_in_month_le [of "year c" "month c"] by (simp add: valid_civil_def)
  have b: "year c < 10000" "month c < 100" "hour c < 100" "minute c < 100" "second c < 100"
    using assms by (simp_all add: valid_civil_def)
  have fr: "list_all (\<lambda>d. d < 10) (fraction c)" and z: "valid_zone (zone c)"
    using assms by (simp_all add: valid_civil_def)
  show ?thesis
    using read_date_format [OF b(1,2) d] read_clock_format [OF b(3,4,5)]
      read_fraction_format [OF fr] read_zone_format [OF z]
    by (simp add: parse_civil_def format_civil_def)
qed

lemma parse_time_format_time: "parse_time (format_time t) = Some t"
  using civil_of [of t]
  by (simp add: parse_time_def format_time_def parse_civil_format civil_of_inverse)

subsection \<open>The reader of strings and the grammar of strings\<close>

lemma hex4_length: "hex4 h = Some n \<Longrightarrow> length h = 4"
  by (cases h rule: hex4.cases) simp_all

lemma read_hex4_append: "hex4 h = Some n \<Longrightarrow> read_hex4 (h @ r) = Some (n, r)"
  by (cases h rule: hex4.cases) simp_all

lemma read_hex4_Some: "read_hex4 s = Some (n, r) \<Longrightarrow> \<exists>h. s = h @ r \<and> hex4 h = Some n"
proof (cases s rule: read_hex4.cases)
  case (1 a b c d r')
  assume "read_hex4 s = Some (n, r)"
  with 1 have "hex4 [a, b, c, d] = Some n" and "r' = r"
    by (auto split: option.splits)
  with 1 have "s = [a, b, c, d] @ r \<and> hex4 [a, b, c, d] = Some n"
    by simp
  then show ?thesis by blast
qed simp_all

lemma simple_escape_u: "simple_escape (CHR ''u'') = None"
  by (simp add: simple_escape_def quote_char_def backslash_def)

lemma read_unicode_append:
  "hex4 l = Some lo \<Longrightarrow> read_unicode (backslash # CHR ''u'' # l @ r) = Some (lo, r)"
  by (simp add: read_hex4_append)

lemma read_unicode_Some:
  "read_unicode s = Some (n, r) \<Longrightarrow> \<exists>h. s = backslash # CHR ''u'' # h @ r \<and> hex4 h = Some n"
  by (cases s rule: read_unicode.cases) (auto split: if_splits dest: read_hex4_Some)

lemma low_escape_ahead_read:
  "low_escape_ahead t \<Longrightarrow> \<exists>lo r'. read_unicode (t @ r) = Some (lo, r') \<and> is_low lo"
  by (auto simp: low_escape_ahead_def read_hex4_append)

lemma quote_not_backslash: "quote_char \<noteq> backslash"
  by (simp add: quote_char_def backslash_def)

lemma read_unicode_other: "c \<noteq> backslash \<Longrightarrow> read_unicode (c # s) = None"
  by (cases s) simp_all

lemma no_low_escape_ahead:
  assumes "json_chars t v" and "\<not> low_escape_ahead t"
    and "read_unicode (t @ quote_char # rest) = Some (lo, r')"
  shows "\<not> is_low lo"
  using assms
proof (cases rule: json_chars.cases)
  case chars_end
  with assms(3) show ?thesis by (simp add: read_unicode_other quote_not_backslash)
next
  case (chars_plain c t' v')
  with assms(3) show ?thesis by (simp add: read_unicode_other)
next
  case (chars_escape e b t' v')
  then have "e \<noteq> CHR ''u''"
    using simple_escape_u by auto
  with chars_escape assms(3) show ?thesis by simp
next
  case (chars_unicode h n t' v')
  with assms(2,3) show ?thesis
    by (auto simp: low_escape_ahead_def read_hex4_append)
next
  case (chars_pair h hi l lo' t' v')
  with assms(2,3) show ?thesis
    by (auto simp: low_escape_ahead_def read_hex4_append)
next
  case (chars_lone_low h n t' v')
  with assms(2,3) show ?thesis
    by (auto simp: low_escape_ahead_def read_hex4_append)
next
  case (chars_lone_high h n t' v')
  with assms(2,3) show ?thesis
    by (auto simp: low_escape_ahead_def read_hex4_append)
qed

lemma high_not_low: "is_high n \<Longrightarrow> \<not> is_low n"
  by (simp add: is_high_def is_low_def)

text \<open>What the grammar derives, the reader reads.\<close>

lemma read_chars_sound:
  "json_chars body v \<Longrightarrow> read_chars (body @ quote_char # rest) = Some (v, rest)"
proof (induction rule: json_chars.induct)
  case chars_end
  show ?case by simp
next
  case (chars_plain c t v)
  then show ?case
    by (cases "t @ quote_char # rest") simp_all
next
  case (chars_escape e b t v)
  then have "e \<noteq> CHR ''u''"
    using simple_escape_u by auto
  with chars_escape show ?case
    by (simp add: quote_not_backslash [symmetric])
next
  case (chars_unicode h n t v)
  then show ?case
    by (simp add: quote_not_backslash [symmetric] read_hex4_append read_code_point_def)
next
  case (chars_pair h hi l lo t v)
  then show ?case
    by (simp add: quote_not_backslash [symmetric] read_hex4_append read_code_point_def)
next
  case (chars_lone_low h n t v)
  then have "\<not> is_high n"
    using high_not_low by blast
  with chars_lone_low show ?case
    by (simp add: quote_not_backslash [symmetric] read_hex4_append read_code_point_def)
next
  case (chars_lone_high h n t v)
  have "read_code_point n (t @ quote_char # rest) = (replacement, t @ quote_char # rest)"
  proof (cases "read_unicode (t @ quote_char # rest)")
    case None
    with chars_lone_high(2) show ?thesis
      by (simp add: read_code_point_def)
  next
    case (Some a)
    obtain lo r' where a: "a = (lo, r')" by (cases a)
    with Some chars_lone_high(3,4) have "\<not> is_low lo"
      using no_low_escape_ahead by blast
    with Some a chars_lone_high(2) show ?thesis
      by (simp add: read_code_point_def)
  qed
  with chars_lone_high show ?case
    by (simp add: quote_not_backslash [symmetric] read_hex4_append)
qed

text \<open>What the reader reads, the grammar derives.\<close>

lemma read_char_complete:
  assumes "read_char s = Some (bs, body @ quote_char # r2)" and "json_chars body v"
  shows "\<exists>u. s = u @ body @ quote_char # r2 \<and> json_chars (u @ body) (bs @ v)"
proof (cases s rule: read_char.cases)
  case 1
  with assms(1) show ?thesis by simp
next
  case (2 c)
  with assms(1) show ?thesis by (auto split: if_splits)
next
  case (3 c e r)
  show ?thesis
  proof (cases "c = backslash")
    case False
    with 3 assms(1) have "bs = [c]" "e # r = body @ quote_char # r2"
      "c \<noteq> quote_char" "\<not> is_control c"
      by (auto split: if_splits)
    with 3 False assms(2) have "s = [c] @ body @ quote_char # r2 \<and> json_chars ([c] @ body) (bs @ v)"
      by (simp add: chars_plain)
    then show ?thesis by blast
  next
    case True
    show ?thesis
    proof (cases "e = CHR ''u''")
      case False
      with 3 True assms(1) obtain b where "simple_escape e = Some b" "bs = [b]"
        "r = body @ quote_char # r2"
        by (auto split: option.splits)
      with 3 True assms(2)
      have "s = [backslash, e] @ body @ quote_char # r2
          \<and> json_chars ([backslash, e] @ body) (bs @ v)"
        by (simp add: chars_escape)
      then show ?thesis by blast
    next
      case u: True
      with 3 True assms(1) obtain n r' where hx: "read_hex4 r = Some (n, r')"
        and cp: "read_code_point n r' = (bs, body @ quote_char # r2)"
        by (auto split: option.splits)
      from hx obtain h where h: "r = h @ r'" "hex4 h = Some n"
        using read_hex4_Some by blast
      show ?thesis
      proof (cases "is_high n")
        case high: True
        show ?thesis
        proof (cases "\<exists>lo r''. read_unicode r' = Some (lo, r'') \<and> is_low lo")
          case True
          then obtain lo r'' where lo: "read_unicode r' = Some (lo, r'')" "is_low lo"
            by blast
          with cp high have "bs = utf8 (combine n lo)" "r'' = body @ quote_char # r2"
            by (simp_all add: read_code_point_def)
          moreover from lo(1) obtain l where "r' = backslash # CHR ''u'' # l @ r''"
            "hex4 l = Some lo"
            using read_unicode_Some by blast
          ultimately have "s = (backslash # CHR ''u'' # h @ backslash # CHR ''u'' # l)
                @ body @ quote_char # r2
              \<and> json_chars ((backslash # CHR ''u'' # h @ backslash # CHR ''u'' # l) @ body)
                  (bs @ v)"
            using 3 \<open>c = backslash\<close> u h high lo(2) assms(2) by (simp add: chars_pair)
          then show ?thesis by blast
        next
          case False
          with cp high have bs: "bs = replacement" and r': "r' = body @ quote_char # r2"
            by (auto simp: read_code_point_def split: option.splits if_splits)
          have "\<not> low_escape_ahead body"
            using False r' low_escape_ahead_read [of body "quote_char # r2"] by auto
          with 3 \<open>c = backslash\<close> u h high bs r' assms(2)
          have "s = (backslash # CHR ''u'' # h) @ body @ quote_char # r2
              \<and> json_chars ((backslash # CHR ''u'' # h) @ body) (bs @ v)"
            by (simp add: chars_lone_high)
          then show ?thesis by blast
        qed
      next
        case nothigh: False
        show ?thesis
        proof (cases "is_low n")
          case True
          with cp nothigh have "bs = replacement" "r' = body @ quote_char # r2"
            by (simp_all add: read_code_point_def)
          with 3 \<open>c = backslash\<close> u h True assms(2)
          have "s = (backslash # CHR ''u'' # h) @ body @ quote_char # r2
              \<and> json_chars ((backslash # CHR ''u'' # h) @ body) (bs @ v)"
            by (simp add: chars_lone_low)
          then show ?thesis by blast
        next
          case False
          with cp nothigh have "bs = utf8 n" "r' = body @ quote_char # r2"
            by (simp_all add: read_code_point_def)
          with 3 \<open>c = backslash\<close> u h False nothigh assms(2)
          have "s = (backslash # CHR ''u'' # h) @ body @ quote_char # r2
              \<and> json_chars ((backslash # CHR ''u'' # h) @ body) (bs @ v)"
            by (simp add: chars_unicode)
          then show ?thesis by blast
        qed
      qed
    qed
  qed
qed

lemma read_chars_complete:
  "read_chars s = Some (v, r) \<Longrightarrow> \<exists>body. s = body @ quote_char # r \<and> json_chars body v"
proof (induction s arbitrary: v r rule: read_chars.induct)
  case 1
  then show ?case by simp
next
  case (2 c s)
  show ?case
  proof (cases "c = quote_char")
    case True
    with "2.prems" have "c # s = [] @ quote_char # r \<and> json_chars [] v"
      by (simp add: chars_end)
    then show ?thesis by blast
  next
    case False
    with "2.prems" obtain bs r1 v' where rc: "read_char (c # s) = Some (bs, r1)"
      and rest: "read_chars r1 = Some (v', r)" and v: "v = bs @ v'"
      by (auto split: option.splits)
    from "2.IH" [OF False rc refl rest] obtain body where
      body: "r1 = body @ quote_char # r" "json_chars body v'"
      by blast
    from read_char_complete [of "c # s" bs body r v'] rc body obtain u where
      "c # s = u @ body @ quote_char # r" "json_chars (u @ body) (bs @ v')"
      by auto
    with v have "c # s = (u @ body) @ quote_char # r \<and> json_chars (u @ body) v"
      by simp
    then show ?thesis by blast
  qed
qed

subsection \<open>The reader of numbers and the grammar of numbers\<close>

lemma stop_char_facts:
  assumes "stop_char c"
  shows "\<not> is_digit c" "c \<noteq> CHR ''.''" "c \<noteq> CHR ''e''" "c \<noteq> CHR ''E''"
    "c \<noteq> CHR ''+''" "c \<noteq> CHR ''-''" "c \<noteq> quote_char"
  using assms by (auto simp: stop_char_def is_ws_def is_digit_def quote_char_def)

lemma digit_facts:
  assumes "is_digit c"
  shows "c \<noteq> CHR ''.''" "c \<noteq> CHR ''e''" "c \<noteq> CHR ''E''" "c \<noteq> CHR ''+''" "c \<noteq> CHR ''-''"
    "c \<noteq> quote_char" "\<not> is_ws c"
  using assms by (auto simp: is_digit_def quote_char_def is_ws_def)

lemma list_all_takeWhile: "list_all P (takeWhile P xs)"
  by (induction xs) simp_all

lemma read_digits1_sound:
  "ds \<noteq> [] \<Longrightarrow> list_all is_digit ds \<Longrightarrow> \<not> is_digit c
     \<Longrightarrow> read_digits1 (ds @ c # r) = Some (c # r)"
  by (simp add: read_digits1_def takeWhile_all dropWhile_all)

lemma read_digits1_complete:
  "read_digits1 s = Some r \<Longrightarrow> \<exists>ds. s = ds @ r \<and> ds \<noteq> [] \<and> list_all is_digit ds"
proof -
  assume "read_digits1 s = Some r"
  then have "takeWhile is_digit s \<noteq> []" and "r = dropWhile is_digit s"
    by (auto simp: read_digits1_def split: if_splits)
  then have "s = takeWhile is_digit s @ r \<and> takeWhile is_digit s \<noteq> []
      \<and> list_all is_digit (takeWhile is_digit s)"
    by (simp add: list_all_takeWhile)
  then show ?thesis by blast
qed

text \<open>A number of the grammar, followed by a character that may follow a value, is read
  to its end.\<close>

lemma read_exp_sound:
  assumes "exp_text e" and "stop_char c"
  shows "read_exp (e @ c # r) = Some (c # r)"
proof (cases "e = []")
  case True
  then show ?thesis using stop_char_facts [OF assms(2)] by simp
next
  case False
  with assms(1) obtain x sg ds where e: "e = x # sg @ ds" "x = CHR ''e'' \<or> x = CHR ''E''"
    "sg = [] \<or> sg = ''+'' \<or> sg = ''-''" "ds \<noteq> []" "list_all is_digit ds"
    by (auto simp: exp_text_def)
  from e(4) obtain d ds' where ds: "ds = d # ds'" by (cases ds) auto
  with e(5) have d: "is_digit d" by simp
  have "skip_sign (sg @ ds @ c # r) = ds @ c # r"
    using e(3) ds digit_facts [OF d] by auto
  then show ?thesis
    using e read_digits1_sound [OF e(4,5), of c r] stop_char_facts(1) [OF assms(2)] by auto
qed

lemma read_frac_sound:
  assumes "frac_text f" and "x \<noteq> CHR ''.''" and "\<not> is_digit x"
  shows "read_frac (f @ x # r) = Some (x # r)"
  using assms by (auto simp: frac_text_def read_digits1_sound)

lemma read_int_sound:
  assumes "int_text i" and "\<not> is_digit x"
  shows "read_int (i @ x # r) = Some (x # r)"
  using assms by (auto simp: int_text_def dropWhile_all)

lemma int_text_head: "int_text i \<Longrightarrow> \<exists>d ds. i = d # ds \<and> is_digit d"
  by (auto simp: int_text_def is_digit_def)

lemma read_number_sound:
  assumes "number_text n" and "stop_char c"
  shows "read_number (n @ c # r) = Some (c # r)"
proof -
  from assms(1) obtain m i f e where n: "n = m @ i @ f @ e" "m = [] \<or> m = ''-''"
    "int_text i" "frac_text f" "exp_text e"
    by (auto simp: number_text_def)
  note sc = stop_char_facts [OF assms(2)]
  obtain x X where X: "e @ c # r = x # X" "x \<noteq> CHR ''.''" "\<not> is_digit x"
  proof (cases "e = []")
    case True
    then show ?thesis using that [of c r] sc by simp
  next
    case False
    with n(5) obtain y ys where "e = y # ys" "y = CHR ''e'' \<or> y = CHR ''E''"
      by (auto simp: exp_text_def)
    then show ?thesis using that [of y "ys @ c # r"] by (auto simp: is_digit_def)
  qed
  obtain y Y where Y: "f @ e @ c # r = y # Y" "\<not> is_digit y"
  proof (cases "f = []")
    case True
    then show ?thesis using that [of x X] X by simp
  next
    case False
    with n(4) obtain ys where "f = CHR ''.'' # ys"
      by (auto simp: frac_text_def)
    then show ?thesis using that [of "CHR ''.''" "ys @ e @ c # r"] by (simp add: is_digit_def)
  qed
  from n(3) obtain d ds where i: "i = d # ds" "is_digit d"
    using int_text_head by blast
  have "skip_minus (n @ c # r) = i @ f @ e @ c # r"
    using n(1,2) i digit_facts [OF i(2)] by auto
  moreover have "read_int (i @ f @ e @ c # r) = Some (f @ e @ c # r)"
    using read_int_sound [OF n(3) Y(2)] Y(1) by simp
  moreover have "read_frac (f @ e @ c # r) = Some (e @ c # r)"
    using read_frac_sound [OF n(4) X(2,3)] X(1) by simp
  moreover have "read_exp (e @ c # r) = Some (c # r)"
    using n(5) assms(2) by (rule read_exp_sound)
  ultimately show ?thesis
    by (simp add: read_number_def)
qed

text \<open>What the reader of numbers takes is a number of the grammar.\<close>

lemma skip_minus_complete: "\<exists>m. s = m @ skip_minus s \<and> (m = [] \<or> m = ''-'')"
  by (cases s) auto

lemma skip_sign_complete: "\<exists>sg. s = sg @ skip_sign s \<and> (sg = [] \<or> sg = ''+'' \<or> sg = ''-'')"
  by (cases s) auto

lemma read_int_complete: "read_int s = Some r \<Longrightarrow> \<exists>i. s = i @ r \<and> int_text i"
proof (cases s)
  case Nil
  assume "read_int s = Some r"
  with Nil show ?thesis by simp
next
  case (Cons c t)
  assume a: "read_int s = Some r"
  show ?thesis
  proof (cases "c = CHR ''0''")
    case True
    with a Cons have "s = ''0'' @ r \<and> int_text ''0''"
      by (simp add: int_text_def)
    then show ?thesis by blast
  next
    case False
    with a Cons have c: "is_digit c" and r: "r = dropWhile is_digit t"
      by (auto split: if_splits)
    with Cons False have "s = (c # takeWhile is_digit t) @ r \<and> int_text (c # takeWhile is_digit t)"
      by (simp add: int_text_def list_all_takeWhile)
    then show ?thesis by blast
  qed
qed

lemma read_frac_complete: "read_frac s = Some r \<Longrightarrow> \<exists>f. s = f @ r \<and> frac_text f"
proof (cases s)
  case Nil
  assume "read_frac s = Some r"
  with Nil have "s = [] @ r \<and> frac_text []" by (simp add: frac_text_def)
  then show ?thesis by blast
next
  case (Cons c t)
  assume a: "read_frac s = Some r"
  show ?thesis
  proof (cases "c = CHR ''.''")
    case True
    with a Cons obtain ds where "t = ds @ r" "ds \<noteq> []" "list_all is_digit ds"
      using read_digits1_complete by auto
    with Cons True have "s = (CHR ''.'' # ds) @ r \<and> frac_text (CHR ''.'' # ds)"
      by (simp add: frac_text_def)
    then show ?thesis by blast
  next
    case False
    with a Cons have "s = [] @ r \<and> frac_text []" by (simp add: frac_text_def)
    then show ?thesis by blast
  qed
qed

lemma read_exp_complete: "read_exp s = Some r \<Longrightarrow> \<exists>e. s = e @ r \<and> exp_text e"
proof (cases s)
  case Nil
  assume "read_exp s = Some r"
  with Nil have "s = [] @ r \<and> exp_text []" by (simp add: exp_text_def)
  then show ?thesis by blast
next
  case (Cons c t)
  assume a: "read_exp s = Some r"
  show ?thesis
  proof (cases "c = CHR ''e'' \<or> c = CHR ''E''")
    case True
    with a Cons obtain ds where ds: "skip_sign t = ds @ r" "ds \<noteq> []" "list_all is_digit ds"
      using read_digits1_complete by auto
    obtain sg where sg: "t = sg @ skip_sign t" "sg = [] \<or> sg = ''+'' \<or> sg = ''-''"
      using skip_sign_complete by blast
    from sg(1) ds(1) have "t = sg @ ds @ r" by simp
    with Cons have "s = (c # sg @ ds) @ r" by simp
    moreover have "exp_text (c # sg @ ds)"
      unfolding exp_text_def using True sg(2) ds(2,3) by blast
    ultimately show ?thesis by blast
  next
    case False
    with a Cons have "s = [] @ r \<and> exp_text []" by (auto simp: exp_text_def)
    then show ?thesis by blast
  qed
qed

lemma read_number_complete:
  assumes "read_number s = Some r"
  shows "\<exists>n. s = n @ r \<and> number_text n"
proof -
  from assms obtain r1 r2 where r: "read_int (skip_minus s) = Some r1" "read_frac r1 = Some r2"
    "read_exp r2 = Some r"
    by (auto simp: read_number_def split: option.splits)
  obtain m where m: "s = m @ skip_minus s" "m = [] \<or> m = ''-''"
    using skip_minus_complete by blast
  from r(1) obtain i where i: "skip_minus s = i @ r1" "int_text i"
    using read_int_complete by blast
  from r(2) obtain f where f: "r1 = f @ r2" "frac_text f"
    using read_frac_complete by blast
  from r(3) obtain e where e: "r2 = e @ r" "exp_text e"
    using read_exp_complete by blast
  have "s = (m @ i @ f @ e) @ r"
    using m(1) i(1) f(1) e(1) by simp
  moreover have "number_text (m @ i @ f @ e)"
    unfolding number_text_def using m(2) i(2) f(2) e(2) by blast
  ultimately show ?thesis by blast
qed

subsection \<open>Scalars, members and the object\<close>

lemma number_text_head: "number_text n \<Longrightarrow> \<exists>c r. n = c # r \<and> (c = CHR ''-'' \<or> is_digit c)"
proof -
  assume "number_text n"
  then obtain m i f e where n: "n = m @ i @ f @ e" "m = [] \<or> m = ''-''" "int_text i"
    by (auto simp: number_text_def)
  from n(3) obtain d ds where "i = d # ds" "is_digit d"
    using int_text_head by blast
  with n(1,2) show ?thesis by auto
qed

lemma number_head_facts:
  assumes "c = CHR ''-'' \<or> is_digit c"
  shows "c \<noteq> quote_char" "c \<noteq> CHR ''t''" "c \<noteq> CHR ''f''" "c \<noteq> CHR ''n''"
  using assms by (auto simp: is_digit_def quote_char_def)

lemma read_scalar_sound:
  assumes "scalar_text t v" and "stop_char c"
  shows "read_scalar (t @ c # r) = Some (v, c # r)"
  using assms(1)
proof (cases rule: scalar_text.cases)
  case (text_string body s)
  then show ?thesis
    using read_chars_sound [of body s "c # r"] by simp
next
  case text_number
  then obtain d ds where n: "t = d # ds" "d = CHR ''-'' \<or> is_digit d"
    using number_text_head by blast
  have "read_number (t @ c # r) = Some (c # r)"
    using text_number assms(2) read_number_sound by simp
  then show ?thesis
    using text_number n number_head_facts [OF n(2)] by simp
next
  case text_true
  then show ?thesis by (simp add: quote_char_def)
next
  case text_false
  then show ?thesis by (simp add: quote_char_def)
next
  case text_null
  then show ?thesis by (simp add: quote_char_def)
qed

lemma read_scalar_complete:
  assumes "read_scalar s = Some (v, r)"
  shows "\<exists>t. s = t @ r \<and> scalar_text t v"
proof (cases s)
  case Nil
  with assms show ?thesis by simp
next
  case (Cons c t)
  show ?thesis
  proof (cases "c = quote_char")
    case True
    with assms Cons obtain x where x: "read_chars t = Some (x, r)" "v = JString x"
      by (auto split: option.splits)
    then obtain body where "t = body @ quote_char # r" "json_chars body x"
      using read_chars_complete by blast
    with Cons True x(2) have "s = (quote_char # body @ [quote_char]) @ r
        \<and> scalar_text (quote_char # body @ [quote_char]) v"
      by (simp add: text_string)
    then show ?thesis by blast
  next
    case nq: False
    show ?thesis
    proof (cases "take 4 s = ''true''")
      case True
      with assms Cons nq have "v = JTrue" "r = drop 4 s" by auto
      with True have "s = ''true'' @ r \<and> scalar_text ''true'' v"
        using append_take_drop_id [of 4 s] by (simp add: text_true)
      then show ?thesis by blast
    next
      case nt: False
      show ?thesis
      proof (cases "take 5 s = ''false''")
        case True
        with assms Cons nq nt have "v = JFalse" "r = drop 5 s" by auto
        with True have "s = ''false'' @ r \<and> scalar_text ''false'' v"
          using append_take_drop_id [of 5 s] by (simp add: text_false)
        then show ?thesis by blast
      next
        case nf: False
        show ?thesis
        proof (cases "take 4 s = ''null''")
          case True
          with assms Cons nq nt nf have "v = JNull" "r = drop 4 s" by auto
          with True have "s = ''null'' @ r \<and> scalar_text ''null'' v"
            using append_take_drop_id [of 4 s] by (simp add: text_null)
          then show ?thesis by blast
        next
          case nn: False
          with assms Cons nq nt nf have rn: "read_number s = Some r"
            and v: "v = JNumber (take (length s - length r) s)"
            by (auto split: option.splits)
          from rn obtain n where n: "s = n @ r" "number_text n"
            using read_number_complete by blast
          then have "take (length s - length r) s = n" by simp
          with v n have "s = n @ r \<and> scalar_text n v"
            by (simp add: text_number)
          then show ?thesis by blast
        qed
      qed
    qed
  qed
qed

lemma skip_ws_sound: "ws_text w \<Longrightarrow> \<not> is_ws c \<Longrightarrow> skip_ws (w @ c # r) = c # r"
  by (simp add: skip_ws_def ws_text_def dropWhile_all)

lemma skip_ws_complete: "\<exists>w. s = w @ skip_ws s \<and> ws_text w"
proof -
  have "s = takeWhile is_ws s @ skip_ws s \<and> ws_text (takeWhile is_ws s)"
    by (simp add: skip_ws_def ws_text_def list_all_takeWhile)
  then show ?thesis by blast
qed

lemma not_ws:
  "\<not> is_ws quote_char" "\<not> is_ws (CHR '':'')" "\<not> is_ws (CHR '','')" "\<not> is_ws (CHR ''{'')"
  "\<not> is_ws (CHR ''}'')"
  by (simp_all add: is_ws_def quote_char_def)

lemma skip_ws_stop: "skip_ws s = c # r \<Longrightarrow> \<not> is_ws c"
  unfolding skip_ws_def by (metis dropWhile_eq_Cons_conv)

lemma expect1_Some: "expect1 c s = Some r \<longleftrightarrow> s = c # r"
  by (cases s) auto

lemma scalar_text_head:
  assumes "scalar_text t v"
  shows "\<exists>c r. t = c # r \<and> \<not> is_ws c"
  using assms
proof (cases rule: scalar_text.cases)
  case text_number
  then obtain d ds where "t = d # ds" "d = CHR ''-'' \<or> is_digit d"
    using number_text_head by blast
  then show ?thesis by (auto simp: is_ws_def is_digit_def)
qed (auto simp: is_ws_def quote_char_def)

lemma read_member_sound:
  assumes "member_text t m" and "stop_char c"
  shows "read_member (t @ c # r) = Some (m, c # r)"
  using assms(1)
proof (cases rule: member_text.cases)
  case (text_member w1 kb k w2 w3 vt v)
  from text_member(7) obtain x xs where vt: "vt = x # xs" "\<not> is_ws x"
    using scalar_text_head by blast
  have 1: "skip_ws (t @ c # r)
      = quote_char # kb @ quote_char # w2 @ CHR '':'' # w3 @ vt @ c # r"
    using text_member(1,3) skip_ws_sound [OF text_member(3) not_ws(1)] by simp
  have 2: "read_chars (kb @ quote_char # w2 @ CHR '':'' # w3 @ vt @ c # r)
      = Some (k, w2 @ CHR '':'' # w3 @ vt @ c # r)"
    using text_member(4) by (rule read_chars_sound)
  have 3: "skip_ws (w2 @ CHR '':'' # w3 @ vt @ c # r) = CHR '':'' # w3 @ vt @ c # r"
    using text_member(5) not_ws(2) by (rule skip_ws_sound)
  have 4: "skip_ws (w3 @ vt @ c # r) = vt @ c # r"
    using skip_ws_sound [OF text_member(6) vt(2)] vt(1) by simp
  have 5: "read_scalar (vt @ c # r) = Some (v, c # r)"
    using text_member(7) assms(2) by (rule read_scalar_sound)
  show ?thesis
    using text_member(2) 1 2 3 4 5 by (simp add: read_member_def)
qed

lemma read_member_complete:
  assumes "read_member s = Some (m, r)"
  shows "\<exists>t. s = t @ r \<and> member_text t m"
proof -
  from assms obtain r1 k r2 r3 v where
    1: "expect1 quote_char (skip_ws s) = Some r1" and
    2: "read_chars r1 = Some (k, r2)" and
    3: "expect1 (CHR '':'') (skip_ws r2) = Some r3" and
    4: "read_scalar (skip_ws r3) = Some (v, r)" and
    m: "m = (k, v)"
    by (auto simp: read_member_def split: option.splits)
  obtain w1 where w1: "s = w1 @ skip_ws s" "ws_text w1" using skip_ws_complete by blast
  obtain w2 where w2: "r2 = w2 @ skip_ws r2" "ws_text w2" using skip_ws_complete by blast
  obtain w3 where w3: "r3 = w3 @ skip_ws r3" "ws_text w3" using skip_ws_complete by blast
  from 2 obtain kb where kb: "r1 = kb @ quote_char # r2" "json_chars kb k"
    using read_chars_complete by blast
  from 4 obtain vt where vt: "skip_ws r3 = vt @ r" "scalar_text vt v"
    using read_scalar_complete by blast
  have "s = w1 @ quote_char # r1" using w1(1) 1 by (simp add: expect1_Some)
  also have "r1 = kb @ quote_char # w2 @ CHR '':'' # r3"
    using kb(1) w2(1) 3 by (simp add: expect1_Some)
  also have "r3 = w3 @ vt @ r" using w3(1) vt(1) by simp
  finally have "s = (w1 @ quote_char # kb @ quote_char # w2 @ CHR '':'' # w3 @ vt) @ r"
    by simp
  moreover have "member_text (w1 @ quote_char # kb @ quote_char # w2 @ CHR '':'' # w3 @ vt) m"
    unfolding m using w1(2) kb(2) w2(2) w3(2) vt(2) by (rule text_member)
  ultimately show ?thesis by blast
qed

lemma stop_comma: "stop_char (CHR '','')"
  by (simp add: stop_char_def)

lemma stop_close: "stop_char (CHR ''}'')"
  by (simp add: stop_char_def)

lemma ws_stop: "ws_text (c # w) \<Longrightarrow> stop_char c"
  by (simp add: ws_text_def stop_char_def)

lemma ws_tail: "ws_text (c # w) \<Longrightarrow> ws_text w"
  by (simp add: ws_text_def)

lemma read_member_sound_ws:
  assumes "member_text t m" and "ws_text w" and "c = CHR '','' \<or> c = CHR ''}''"
  shows "\<exists>r'. read_member (t @ w @ c # r) = Some (m, r') \<and> skip_ws r' = c # r"
proof (cases w)
  case Nil
  have "stop_char c" using assms(3) stop_comma stop_close by auto
  then have "read_member (t @ c # r) = Some (m, c # r)"
    using assms(1) read_member_sound by blast
  moreover have "skip_ws (c # r) = c # r"
    using assms(3) skip_ws_sound [of "[]" c r] not_ws by (auto simp: ws_text_def)
  ultimately show ?thesis using Nil by simp
next
  case (Cons x xs)
  with assms(2) have "stop_char x" using ws_stop by blast
  then have "read_member (t @ x # xs @ c # r) = Some (m, x # xs @ c # r)"
    using assms(1) read_member_sound by blast
  moreover have "skip_ws ((x # xs) @ c # r) = c # r"
    using assms(2,3) Cons not_ws by (intro skip_ws_sound) auto
  ultimately show ?thesis using Cons by simp
qed

lemma read_members_sound:
  assumes "members_text t ms" and "ws_text w"
  shows "read_members (t @ w @ CHR ''}'' # r) = Some (ms, r)"
  using assms
proof (induction arbitrary: w r rule: members_text.induct)
  case (members_last t m)
  obtain r' where "read_member (t @ w @ CHR ''}'' # r) = Some (m, r')"
    "skip_ws r' = CHR ''}'' # r"
    using read_member_sound_ws [OF members_last(1,2), of "CHR ''}''" r] by auto
  then show ?case
    by (subst read_members.simps) simp
next
  case (members_more t m w' t' ms)
  obtain r' where "read_member (t @ w' @ CHR '','' # t' @ w @ CHR ''}'' # r) = Some (m, r')"
    "skip_ws r' = CHR '','' # t' @ w @ CHR ''}'' # r"
    using read_member_sound_ws [OF members_more(1,2), of "CHR '',''" "t' @ w @ CHR ''}'' # r"]
    by auto
  moreover have "read_members (t' @ w @ CHR ''}'' # r) = Some (ms, r)"
    using members_more.IH [OF members_more.prems] .
  ultimately show ?case
    by (subst read_members.simps) simp
qed

lemma read_members_complete:
  "read_members s = Some (ms, r)
     \<Longrightarrow> \<exists>t w. s = t @ w @ CHR ''}'' # r \<and> members_text t ms \<and> ws_text w"
proof (induction s arbitrary: ms r rule: read_members.induct)
  case (1 s)
  from "1.prems" obtain m r1 c r' where rm: "read_member s = Some (m, r1)"
    and sk: "skip_ws r1 = c # r'"
    by (subst (asm) read_members.simps) (auto split: option.splits list.splits)
  from rm obtain t where t: "s = t @ r1" "member_text t m"
    using read_member_complete by blast
  obtain w where w: "r1 = w @ skip_ws r1" "ws_text w"
    using skip_ws_complete by blast
  show ?case
  proof (cases "c = CHR '',''")
    case True
    with "1.prems" rm sk obtain ms' where rest: "read_members r' = Some (ms', r)"
      and ms: "ms = m # ms'"
      by (subst (asm) read_members.simps) (auto split: option.splits)
    from "1.IH" [OF rm refl sk True rest] obtain t' w' where
      t': "r' = t' @ w' @ CHR ''}'' # r" "members_text t' ms'" "ws_text w'"
      by blast
    have "s = (t @ w @ CHR '','' # t') @ w' @ CHR ''}'' # r"
      using t(1) w(1) sk True t'(1) by simp
    moreover have "members_text (t @ w @ CHR '','' # t') ms"
      unfolding ms using t(2) w(2) t'(2) by (rule members_more)
    ultimately show ?thesis using t'(3) by blast
  next
    case False
    with "1.prems" rm sk have c: "c = CHR ''}''" and ms: "ms = [m]" and r: "r' = r"
      by (subst (asm) read_members.simps, auto split: if_splits)+
    have "s = t @ w @ CHR ''}'' # r"
      using t(1) w(1) sk c r by simp
    moreover have "members_text t ms"
      unfolding ms using t(2) by (rule members_last)
    ultimately show ?thesis using w(2) by blast
  qed
qed

subsection \<open>Unmarshal accepts the serialised Sessions and nothing else\<close>

lemma member_text_head: "member_text t m \<Longrightarrow> \<exists>w x. t = w @ quote_char # x \<and> ws_text w"
  by (auto elim!: member_text.cases)

lemma members_text_head: "members_text t ms \<Longrightarrow> \<exists>w x. t = w @ quote_char # x \<and> ws_text w"
proof (induction rule: members_text.induct)
  case (members_last t m)
  then show ?case by (rule member_text_head)
next
  case (members_more t m w t' ms)
  from members_more(1) obtain w1 x where "t = w1 @ quote_char # x" "ws_text w1"
    using member_text_head by blast
  then have "t @ w @ CHR '','' # t' = w1 @ quote_char # (x @ w @ CHR '','' # t') \<and> ws_text w1"
    by simp
  then show ?case by blast
qed

lemma quote_not_close: "quote_char \<noteq> CHR ''}''"
  by (simp add: quote_char_def)

lemma read_object_sound:
  assumes "object_text t ms"
  shows "read_object (t @ g) = Some (ms, g)"
  using assms
proof (cases rule: object_text.cases)
  case (object_empty w0 w1)
  have "skip_ws (t @ g) = CHR ''{'' # w1 @ CHR ''}'' # g"
    using object_empty(1) skip_ws_sound [OF object_empty(3) not_ws(4)] by simp
  moreover have "skip_ws (w1 @ CHR ''}'' # g) = CHR ''}'' # g"
    using object_empty(4) not_ws(5) by (rule skip_ws_sound)
  ultimately show ?thesis
    using object_empty(2) by (simp add: read_object_def)
next
  case (object_members w0 tm w1)
  from object_members(3) obtain w x where tm: "tm = w @ quote_char # x" "ws_text w"
    using members_text_head by blast
  have "skip_ws (t @ g) = CHR ''{'' # tm @ w1 @ CHR ''}'' # g"
    using object_members(1) skip_ws_sound [OF object_members(2) not_ws(4)] by simp
  moreover have "skip_ws (tm @ w1 @ CHR ''}'' # g) = quote_char # x @ w1 @ CHR ''}'' # g"
    using tm skip_ws_sound [OF tm(2) not_ws(1)] by simp
  moreover have "read_members (tm @ w1 @ CHR ''}'' # g) = Some (ms, g)"
    using object_members(3,4) by (rule read_members_sound)
  ultimately show ?thesis
    by (simp add: read_object_def quote_not_close)
qed

lemma expect1_None_or: "expect1 c s = None \<or> (\<exists>r. s = c # r)"
  by (cases s) auto

lemma read_object_complete:
  assumes "read_object s = Some (ms, g)"
  shows "\<exists>t. s = t @ g \<and> object_text t ms"
proof -
  from assms obtain r where r: "expect1 (CHR ''{'') (skip_ws s) = Some r"
    by (auto simp: read_object_def split: option.splits)
  obtain w0 where w0: "s = w0 @ skip_ws s" "ws_text w0"
    using skip_ws_complete by blast
  from r w0(1) have s: "s = w0 @ CHR ''{'' # r"
    by (simp add: expect1_Some)
  show ?thesis
  proof (cases "expect1 (CHR ''}'') (skip_ws r)")
    case (Some r')
    with assms r have "ms = []" "r' = g"
      by (simp_all add: read_object_def)
    moreover obtain w1 where "r = w1 @ skip_ws r" "ws_text w1"
      using skip_ws_complete by blast
    ultimately have "s = (w0 @ CHR ''{'' # w1 @ ''}'') @ g
        \<and> object_text (w0 @ CHR ''{'' # w1 @ ''}'') ms"
      using s Some w0(2) by (simp add: expect1_Some object_empty)
    then show ?thesis by blast
  next
    case None
    with assms r have "read_members r = Some (ms, g)"
      by (simp add: read_object_def)
    then obtain t w where "r = t @ w @ CHR ''}'' # g" "members_text t ms" "ws_text w"
      using read_members_complete by blast
    then have "s = (w0 @ CHR ''{'' # t @ w @ ''}'') @ g
        \<and> object_text (w0 @ CHR ''{'' # t @ w @ ''}'') ms"
      using s w0(2) by (simp add: object_members)
    then show ?thesis by blast
  qed
qed

lemma Unmarshal_serialized:
  "serialized_session t s \<Longrightarrow> Unmarshal (t @ garbage) = Inr s"
  by (auto simp: serialized_session_def Unmarshal_def read_object_sound)

lemma Unmarshal_Inr_serialized:
  assumes "Unmarshal data = Inr s"
  shows "\<exists>t garbage. data = t @ garbage \<and> serialized_session t s"
proof -
  from assms obtain ms g where "read_object data = Some (ms, g)"
    "set_fields ms zeroSession = Some s"
    by (auto simp: Unmarshal_def split: option.splits)
  then show ?thesis
    using read_object_complete [of data ms g] by (auto simp: serialized_session_def)
qed

lemma Unmarshal_Inl: "Unmarshal data = Inl e \<Longrightarrow> e = ErrorDeserialize"
  by (auto simp: Unmarshal_def split: option.splits)

lemma malformed_iff: "malformed data \<longleftrightarrow> Unmarshal data = Inl ErrorDeserialize"
proof
  assume m: "malformed data"
  show "Unmarshal data = Inl ErrorDeserialize"
  proof (cases "Unmarshal data")
    case (Inl e)
    then show ?thesis using Unmarshal_Inl by blast
  next
    case (Inr s)
    then have "\<not> malformed data"
      using Unmarshal_Inr_serialized unfolding malformed_def by blast
    with m show ?thesis by simp
  qed
next
  assume u: "Unmarshal data = Inl ErrorDeserialize"
  show "malformed data"
    unfolding malformed_def
  proof
    assume "\<exists>t garbage s. data = t @ garbage \<and> serialized_session t s"
    then obtain t g s where "data = t @ g" "serialized_session t s" by blast
    then have "Unmarshal data = Inr s" using Unmarshal_serialized by simp
    with u show False by simp
  qed
qed

lemma serialized_whole:
  "read_object data = Some (ms, []) \<Longrightarrow> set_fields ms zeroSession = Some s
     \<Longrightarrow> serialized_session data s"
  using read_object_complete [of data ms "[]"] by (auto simp: serialized_session_def)

subsection \<open>What Marshal writes is a serialised Session\<close>

lemma hex_val_hex_digit: "k < 16 \<Longrightarrow> hex_val (hex_digit k) = Some k"
proof -
  assume "k < 16"
  then consider "k = 0" | "k = 1" | "k = 2" | "k = 3" | "k = 4" | "k = 5" | "k = 6" | "k = 7"
    | "k = 8" | "k = 9" | "k = 10" | "k = 11" | "k = 12" | "k = 13" | "k = 14" | "k = 15"
    by atomize_elim arith
  then show ?thesis
    by cases (simp_all add: hex_val_def hex_digit_def is_digit_def digit_val_def)
qed

lemma hex_val_zero: "hex_val (CHR ''0'') = Some 0"
  by (simp add: hex_val_def is_digit_def digit_val_def)

lemma hex4_control:
  assumes "n < 32"
  shows "hex4 [CHR ''0'', CHR ''0'', hex_digit (n div 16), hex_digit (n mod 16)] = Some n"
proof -
  have "n div 16 < 16" "n mod 16 < 16" using assms by simp_all
  then show ?thesis by (simp add: hex_val_zero hex_val_hex_digit)
qed

lemma utf8_control: "is_control c \<Longrightarrow> utf8 (of_char c) = [c]"
  by (simp add: utf8_def is_control_def)

lemma json_chars_escape: "json_chars (escape v) v"
proof (induction v)
  case Nil
  show ?case by (simp add: chars_end)
next
  case (Cons c v)
  show ?case
  proof (cases "c = quote_char \<or> c = backslash")
    case True
    then have "simple_escape c = Some c"
      by (auto simp: simple_escape_def)
    then have "json_chars (backslash # c # escape v) (c # v)"
      using Cons by (rule chars_escape)
    with True show ?thesis by simp
  next
    case False
    show ?thesis
    proof (cases "is_control c")
      case True
      then have n: "(of_char c :: nat) < 32" by (simp add: is_control_def)
      have "json_chars (backslash # CHR ''u''
          # [CHR ''0'', CHR ''0'', hex_digit (of_char c div 16), hex_digit (of_char c mod 16)]
          @ escape v) (utf8 (of_char c) @ v)"
        using hex4_control [OF n] n Cons
        by (intro chars_unicode) (simp_all add: is_high_def is_low_def)
      with True False show ?thesis by (simp add: utf8_control)
    next
      case nc: False
      with False Cons have "json_chars (c # escape v) (c # v)"
        by (intro chars_plain) simp_all
      with False nc show ?thesis by simp
    qed
  qed
qed

lemma ws_text_Nil: "ws_text []"
  by (simp add: ws_text_def)

lemma member_text_emit: "member_text (emit_member k v) (k, JString v)"
proof -
  have "member_text ([] @ quote_char # escape k @ quote_char # [] @ CHR '':'' # []
      @ (quote_char # escape v @ [quote_char])) (k, JString v)"
    by (intro text_member text_string ws_text_Nil json_chars_escape)
  then show ?thesis by (simp add: emit_member_def quoted_def)
qed

lemma members_text_cons:
  "members_text t ms \<Longrightarrow> members_text (emit_member k v @ CHR '','' # t) ((k, JString v) # ms)"
  using members_more [OF member_text_emit ws_text_Nil, of t ms k v] by simp

lemma object_text_Marshal:
  "object_text (Marshal s)
     [(''AuthURL'', JString (Session.AuthURL s)),
      (''AccessToken'', JString (Session.AccessToken s)),
      (''Hostname'', JString (Hostname s)), (''HMAC'', JString (HMAC s)),
      (''ExpiresAt'', JString (format_time (Session.ExpiresAt s)))]"
proof -
  let ?t = "emit_member ''AuthURL'' (Session.AuthURL s)
       @ CHR '','' # emit_member ''AccessToken'' (Session.AccessToken s)
       @ CHR '','' # emit_member ''Hostname'' (Hostname s)
       @ CHR '','' # emit_member ''HMAC'' (HMAC s)
       @ CHR '','' # emit_member ''ExpiresAt'' (format_time (Session.ExpiresAt s))"
  have "members_text ?t
     [(''AuthURL'', JString (Session.AuthURL s)),
      (''AccessToken'', JString (Session.AccessToken s)),
      (''Hostname'', JString (Hostname s)), (''HMAC'', JString (HMAC s)),
      (''ExpiresAt'', JString (format_time (Session.ExpiresAt s)))]"
    by (intro members_text_cons members_last member_text_emit)
  then have "object_text ([] @ CHR ''{'' # ?t @ [] @ ''}'')
     [(''AuthURL'', JString (Session.AuthURL s)),
      (''AccessToken'', JString (Session.AccessToken s)),
      (''Hostname'', JString (Hostname s)), (''HMAC'', JString (HMAC s)),
      (''ExpiresAt'', JString (format_time (Session.ExpiresAt s)))]"
    by (intro object_members ws_text_Nil)
  then show ?thesis by (simp add: Marshal_def)
qed

lemma set_fields_Marshal:
  "set_fields
     [(''AuthURL'', JString (Session.AuthURL s)),
      (''AccessToken'', JString (Session.AccessToken s)),
      (''Hostname'', JString (Hostname s)), (''HMAC'', JString (HMAC s)),
      (''ExpiresAt'', JString (format_time (Session.ExpiresAt s)))] zeroSession
     = Some (s\<lparr>Session.RefreshToken := ''''\<rparr>)"
  by (cases s)
    (simp add: set_field_def set_string_def set_time_def parse_time_format_time zeroSession_def)

lemma serialized_Marshal: "serialized_session (Marshal s) (s\<lparr>Session.RefreshToken := ''''\<rparr>)"
  unfolding serialized_session_def using object_text_Marshal set_fields_Marshal by blast

lemma Marshal_RefreshToken: "Marshal (s\<lparr>Session.RefreshToken := r\<rparr>) = Marshal s"
  by (simp add: Marshal_def)

subsection \<open>Unmarshal after Marshal\<close>

lemma Unmarshal_Marshal_append:
  "Unmarshal (Marshal s @ garbage) = Inr (s\<lparr>Session.RefreshToken := ''''\<rparr>)"
  using serialized_Marshal by (rule Unmarshal_serialized)

lemmas reader_defs = Unmarshal_def read_object_def read_members.simps read_member_def skip_ws_def
  is_ws_def quote_char_def backslash_def set_field_def set_string_def set_time_def
  is_control_def read_number_def read_digits1_def is_digit_def simple_escape_def
  read_code_point_def hex_val_def digit_val_def is_high_def is_low_def utf8_def combine_def
  replacement_def parse_time_def parse_civil_def read_date_def read_clock_def read4_def
  valid_civil_def days_in_month_def leap_year_def char_of_def bit_Suc_0_iff

text \<open>The two strings of the package's tests: the serialised zero Session of
  \<^verbatim>\<open>Test_ToJSON\<close>, and the input of \<^verbatim>\<open>Test_SessionFromJSON\<close> with its stray
  final quote.\<close>

lemma format_time_zeroTime: "format_time zeroTime = ''0001-01-01T00:00:00Z''"
proof -
  have "civil_of zeroTime = zero_civil"
    unfolding zeroTime_def
    by (rule Time_of_inverse) (simp add: zero_civil_def valid_civil_def days_in_month_def)
  then show ?thesis
    by (simp add: format_time_def format_civil_def zero_civil_def d4_def d2_def dig_def
        format_fraction_def)
qed

lemma Marshal_zeroSession:
  \<open>Marshal zeroSession =
     ''{"AuthURL":"","AccessToken":"","Hostname":"","HMAC":"","ExpiresAt":"0001-01-01T00:00:00Z"}''\<close>
  by (simp add: Marshal_def zeroSession_def format_time_zeroTime emit_member_def quoted_def
      quote_char_def backslash_def is_control_def)

lemma Unmarshal_test_input:
  \<open>Unmarshal
     ''{"AuthURL":"https://login.xero.com/identity/connect/authorize","AccessToken":"1234567890"}"''
   = Inr (zeroSession\<lparr>Session.AuthURL := ''https://login.xero.com/identity/connect/authorize'',
                       Session.AccessToken := ''1234567890''\<rparr>)\<close>
  by (simp add: reader_defs)

text \<open>
  Claim C6. For every Session, Marshal, then Unmarshal on the result, then Marshal again
  gives the string the first Marshal gave: Unmarshal succeeds on the output of Marshal, and
  the Session it yields serialises to the same string.
\<close>

theorem Marshal_Unmarshal_Marshal:
  "\<exists>s'. Unmarshal (Marshal s) = Inr s' \<and> Marshal s' = Marshal s"
  using Unmarshal_Marshal_append [of s "[]"] by (simp add: Marshal_RefreshToken)

subsection \<open>Malformed input and trailing garbage\<close>

text \<open>Texts that are JSON objects of the format and were written by another writer:
  white space between the tokens, an ampersand written by its code point and a slash
  behind a backslash, a
  member of another name with a number, a field that is \<^verbatim>\<open>null\<close>, characters
  behind the closing brace; and a timestamp with a lower-case \<^verbatim>\<open>t\<close>, a fraction
  of a second and an offset.\<close>

lemma Unmarshal_accepts_examples:
  \<open>Unmarshal ('' { "AuthURL" : "a'' @ backslash # ''u0026b'' @ backslash
       # ''/c" , "n" : -1.5e3 , "HMAC" : null } tail'')
   = Inr (zeroSession\<lparr>Session.AuthURL := ''a&b/c''\<rparr>)\<close>
  \<open>Unmarshal ''{"ExpiresAt":"2030-06-15t12:30:00.25+05:30"}''
   = Inr (zeroSession\<lparr>Session.ExpiresAt :=
        Time_of \<lparr>year = 2030, month = 6, day = 15, hour = 12, minute = 30, second = 0,
                 fraction = [2, 5], zone = Offset True 5 30\<rparr>\<rparr>)\<close>
  by (simp_all add: reader_defs)

text \<open>Malformed texts: the empty text, an array, an object that is cut short, a comma
  before the closing brace, a member without a value, a field whose value is a number, a
  number with a leading zero, a backslash before a character that forms no escape, a line
  feed inside a string, a timestamp that is none, one whose numbers are out of range, one
  for a day that does not exist, and one whose year has five digits.\<close>

lemma Unmarshal_malformed_examples:
  \<open>Unmarshal [] = Inl ErrorDeserialize\<close>
  \<open>Unmarshal ''["AuthURL"]'' = Inl ErrorDeserialize\<close>
  \<open>Unmarshal ''{"AuthURL":"https://x'' = Inl ErrorDeserialize\<close>
  \<open>Unmarshal ''{"AuthURL":"a",}'' = Inl ErrorDeserialize\<close>
  \<open>Unmarshal ''{"AuthURL"}'' = Inl ErrorDeserialize\<close>
  \<open>Unmarshal ''{"AuthURL":1}'' = Inl ErrorDeserialize\<close>
  \<open>Unmarshal ''{"n":01}'' = Inl ErrorDeserialize\<close>
  \<open>Unmarshal (''{"AuthURL":"a'' @ backslash # ''qb"}'') = Inl ErrorDeserialize\<close>
  \<open>Unmarshal (''{"AuthURL":"a'' @ CHR 0x0A # ''b"}'') = Inl ErrorDeserialize\<close>
  \<open>Unmarshal ''{"ExpiresAt":"soon"}'' = Inl ErrorDeserialize\<close>
  \<open>Unmarshal ''{"ExpiresAt":"2030-13-45T25:61:61Z"}'' = Inl ErrorDeserialize\<close>
  \<open>Unmarshal ''{"ExpiresAt":"2023-02-29T00:00:00Z"}'' = Inl ErrorDeserialize\<close>
  \<open>Unmarshal ''{"ExpiresAt":"12030-06-15T12:30:00Z"}'' = Inl ErrorDeserialize\<close>
  by (simp_all add: reader_defs)

text \<open>
  Claim C9. Unmarshal fails with ErrorDeserialize on malformed input, and on no other: an
  input is refused exactly when no text it starts with is a well-formed serialised
  Session. For every well-formed serialised Session followed by any trailing characters
  after its closing brace (a stray quote, say), Unmarshal succeeds and yields the Session
  whose fields are those of the well-formed prefix. Every text Marshal writes is a
  well-formed serialised Session, of the Session with the serialised fields.
\<close>

theorem Unmarshal_trailing_garbage:
  "(malformed data \<longleftrightarrow> Unmarshal data = Inl ErrorDeserialize) \<and>
   (serialized_session wellformed sess \<longrightarrow> Unmarshal (wellformed @ garbage) = Inr sess) \<and>
   serialized_session (Marshal s) (s\<lparr>Session.RefreshToken := ''''\<rparr>)"
  using malformed_iff Unmarshal_serialized serialized_Marshal by blast

theorem Unmarshal_trailing_garbage_witness:
  \<open>malformed ''{"AuthURL":"https://x"'' \<and>
   Unmarshal ''{"AuthURL":"https://x"'' = Inl ErrorDeserialize \<and>
   serialized_session ''{"AuthURL":"https://x","AccessToken":"tok"}''
     (zeroSession\<lparr>Session.AuthURL := ''https://x'', Session.AccessToken := ''tok''\<rparr>) \<and>
   Unmarshal (''{"AuthURL":"https://x","AccessToken":"tok"}'' @ ''"'')
     = Inr (zeroSession\<lparr>Session.AuthURL := ''https://x'', Session.AccessToken := ''tok''\<rparr>) \<and>
   serialized_session (Marshal tokenSession) (tokenSession\<lparr>Session.RefreshToken := ''''\<rparr>)\<close>
proof -
  have refused: \<open>Unmarshal ''{"AuthURL":"https://x"'' = Inl ErrorDeserialize\<close>
    by (simp add: reader_defs)
  have accepted: \<open>serialized_session ''{"AuthURL":"https://x","AccessToken":"tok"}''
      (zeroSession\<lparr>Session.AuthURL := ''https://x'', Session.AccessToken := ''tok''\<rparr>)\<close>
    by (rule serialized_whole
        [of _ "[(''AuthURL'', JString ''https://x''), (''AccessToken'', JString ''tok'')]"])
      (simp_all add: reader_defs)
  show ?thesis
    using Unmarshal_trailing_garbage
      [of \<open>''{"AuthURL":"https://x"''\<close> \<open>''{"AuthURL":"https://x","AccessToken":"tok"}''\<close>
          \<open>zeroSession\<lparr>Session.AuthURL := ''https://x'', Session.AccessToken := ''tok''\<rparr>\<close>
          \<open>''"''\<close> tokenSession]
      refused accepted
    by simp
qed

end
